theory Spec2Isabelle
  imports Main "HOL-Library.Char_ord" "HOL-Library.List_Lexorder" "HOL-Library.Sublist"
begin

section \<open>Python values and library functions used by \<open>rpmpreamble.py\<close>\<close>

text \<open>
  The exceptions the code can raise. \<open>RpmException\<close> is the engine's own exception;
  the others are the interpreter's (a missing attribute, an index or group out of range,
  a missing dictionary key, a pattern applied to a non-string, \<open>int\<close> of a non-number).
\<close>

datatype error =
    RpmException string
  | AttributeError string
  | IndexError
  | KeyError string
  | TypeError
  | ValueError

text \<open>
  A stored group is either a plain line (\<open>str\<close>) or a list of groups (\<open>list\<close>);
  \<open>_add_group\<close> and \<open>_sort_helper_key\<close> inspect the type at run time and reject every
  other type, which \<open>GOther\<close> stands for (it carries the name of the type).
\<close>

datatype group = GStr string | GList "group list" | GOther string

definition is_space :: "char \<Rightarrow> bool" where
  "is_space c = (c \<in> set [CHR '' '', CHR 0x09, CHR 0x0A, CHR 0x0B, CHR 0x0C, CHR 0x0D])"

text \<open>\<open>s.split()\<close>: the maximal runs of non-whitespace characters.\<close>

fun py_split_acc :: "string \<Rightarrow> string \<Rightarrow> string list" where
  "py_split_acc w [] = (if w = [] then [] else [w])"
| "py_split_acc w (c # cs) =
     (if is_space c then (if w = [] then py_split_acc [] cs else w # py_split_acc [] cs)
      else py_split_acc (w @ [c]) cs)"

definition py_split :: "string \<Rightarrow> string list" where
  "py_split s = py_split_acc [] s"

text \<open>
  \<open>s.replace(old, new)\<close>: the non-overlapping occurrences of \<open>old\<close>, leftmost first.
  The counter is the number of characters of a replaced occurrence still to skip.
\<close>

fun replace_from :: "string \<Rightarrow> string \<Rightarrow> nat \<Rightarrow> string \<Rightarrow> string" where
  "replace_from old new k [] = []"
| "replace_from old new (Suc k) (c # cs) = replace_from old new k cs"
| "replace_from old new 0 (c # cs) =
     (if prefix old (c # cs) then new @ replace_from old new (length old - 1) cs
      else c # replace_from old new 0 cs)"

definition py_replace :: "string \<Rightarrow> string \<Rightarrow> string \<Rightarrow> string" where
  "py_replace old new s =
     (if old = [] then new @ concat (map (\<lambda>c. c # new) s) else replace_from old new 0 s)"

text \<open>\<open>s.find(sub) != -1\<close>.\<close>

fun py_contains :: "string \<Rightarrow> string \<Rightarrow> bool" where
  "py_contains sub [] = (sub = [])"
| "py_contains sub (c # cs) = (prefix sub (c # cs) \<or> py_contains sub cs)"

text \<open>\<open>sep.join(xs)\<close>.\<close>

fun py_join :: "string \<Rightarrow> string list \<Rightarrow> string" where
  "py_join sep [] = []"
| "py_join sep [x] = x"
| "py_join sep (x # y # ys) = x @ sep @ py_join sep (y # ys)"

text \<open>\<open>re.sub(r'([<>]=?|=)', r' \1 ', token)\<close>: every comparison operator gets a space on
  each side.\<close>

fun sub_operators :: "string \<Rightarrow> string" where
  "sub_operators [] = []"
| "sub_operators (c # cs) =
     (if c = CHR ''<'' \<or> c = CHR ''>'' then
        (case cs of
           [] \<Rightarrow> '' '' @ [c] @ '' ''
         | d # ds \<Rightarrow>
             if d = CHR ''='' then '' '' @ [c, d] @ '' '' @ sub_operators ds
             else '' '' @ [c] @ '' '' @ sub_operators cs)
      else if c = CHR ''='' then '' '' @ [c] @ '' '' @ sub_operators cs
      else c # sub_operators cs)"

text \<open>A loop that stops at the first exception.\<close>

fun mapE :: "('a \<Rightarrow> error + 'b) \<Rightarrow> 'a list \<Rightarrow> error + 'b list" where
  "mapE f [] = Inr []"
| "mapE f (x # xs) =
     (case f x of
        Inl e \<Rightarrow> Inl e
      | Inr y \<Rightarrow> (case mapE f xs of Inl e \<Rightarrow> Inl e | Inr ys \<Rightarrow> Inr (y # ys)))"

text \<open>\<open>t[i]\<close> for \<open>0 \<le> i\<close>.\<close>

definition py_index :: "'a list \<Rightarrow> nat \<Rightarrow> error + 'a" where
  "py_index xs i = (if i < length xs then Inr (xs ! i) else Inl IndexError)"

section \<open>The pattern table and the engine's environment\<close>

text \<open>
  The patterns live in \<open>self.reg\<close>, an object of a module that is not part of
  \<open>rpmpreamble.py\<close>; the table is a parameter of the model. A pattern maps a line to the
  captured groups of its match (\<open>match.group(1)\<close> is the first element), or to \<open>None\<close>.
  \<open>re_requires_token_findall\<close> is \<open>re_requires_token.findall\<close>: one tuple of groups per
  match.
\<close>

type_synonym match = "string list"
type_synonym pattern = "string \<Rightarrow> match option"

record regs =
  re_if :: pattern
  re_comment :: pattern
  re_source :: pattern
  re_patch :: pattern
  re_prereq :: pattern
  re_requires_phase :: pattern
  re_provides :: pattern
  re_obsoletes :: pattern
  re_buildroot :: pattern
  re_license :: pattern
  re_release :: pattern
  re_summary_localized :: pattern
  re_define :: pattern
  re_name :: pattern
  re_version :: pattern
  re_summary :: pattern
  re_url :: pattern
  re_group :: pattern
  re_buildrequires :: pattern
  re_requires :: pattern
  re_recommends :: pattern
  re_suggests :: pattern
  re_supplements :: pattern
  re_buildarch :: pattern
  re_vendor :: pattern
  re_autoreqprov :: pattern
  re_epoch :: pattern
  re_requires_token :: pattern
  re_requires_token_findall :: "string \<Rightarrow> string list list"

text \<open>\<open>match.group(k)\<close> for \<open>k \<ge> 1\<close>, and \<open>match.groups()[len(match.groups()) - 1]\<close>.\<close>

definition mgroup :: "match \<Rightarrow> nat \<Rightarrow> error + string" where
  "mgroup m k = (if 1 \<le> k \<and> k \<le> length m then Inr (m ! (k - 1)) else Inl IndexError)"

definition last_group :: "match \<Rightarrow> error + string" where
  "last_group m = (if m = [] then Inl IndexError else Inr (last m))"

text \<open>
  What the instance holds besides its own state: the pattern table, the two conversion
  tables read at construction, the two string helpers inherited from \<open>Section\<close>
  (\<open>_complete_cleanup\<close>, \<open>strip_useless_spaces\<close>), and \<open>self_attr\<close>, the patterns that are
  attributes of the instance itself rather than of \<open>self.reg\<close> (the class sets none).
\<close>

record env =
  reg :: regs
  license_conversions :: "string \<rightharpoonup> string"
  pkgconfig_conversions :: "string \<rightharpoonup> string"
  complete_cleanup :: "string \<Rightarrow> string"
  strip_useless_spaces :: "string \<Rightarrow> string"
  self_attr :: "string \<rightharpoonup> pattern"

text \<open>
  The mutable state: \<open>self.lines\<close> (the sink of \<open>Section\<close>), \<open>self.previous_line\<close>,
  \<open>self.paragraph\<close> (the field \<open>paragraph'\<close>) and \<open>self.current_group\<close>.
\<close>

record state =
  lines :: "string list"
  previous_line :: "string option"
  paragraph' :: "string \<rightharpoonup> group list"
  current_group :: "group list"

text \<open>A call either returns with the new state or raises, leaving the state it had reached.\<close>

type_synonym outcome = "(error \<times> state) + state"

section \<open>The class tables\<close>

definition category_to_key :: "string \<rightharpoonup> string" where
  "category_to_key = map_of
     [(''define'', ''%define''),
      (''name'', ''Name''),
      (''version'', ''Version''),
      (''release'', ''Release''),
      (''license'', ''License''),
      (''summary'', ''Summary''),
      (''url'', ''Url''),
      (''group'', ''Group''),
      (''source'', ''Source''),
      (''patch'', ''Patch''),
      (''buildrequires'', ''BuildRequires''),
      (''prereq'', ''PreReq''),
      (''requires'', ''Requires''),
      (''recommends'', ''Recommends''),
      (''suggests'', ''Suggests''),
      (''supplements'', ''Supplements''),
      (''buildroot'', ''BuildRoot''),
      (''buildarch'', ''BuildArch''),
      (''epoch'', ''Epoch'')]"

definition categories_order :: "string list" where
  "categories_order =
     [''define'', ''name'', ''version'', ''release'', ''license'', ''summary'',
      ''summary_localized'', ''url'', ''group'', ''source'', ''patch'', ''buildrequires'',
      ''requires'', ''prereq'', ''requires_phase'', ''recommends'', ''suggests'',
      ''supplements'', ''provides_obsoletes'', ''buildroot'', ''buildarch'', ''misc'']"

definition categories_with_sorted_package_tokens :: "string list" where
  "categories_with_sorted_package_tokens =
     [''buildrequires'', ''prereq'', ''requires'', ''recommends'', ''suggests'', ''supplements'']"

definition categories_with_sorted_keyword_tokens :: "string list" where
  "categories_with_sorted_keyword_tokens = [''source'', ''patch'']"

text \<open>Set up in \<open>__init__\<close>: a copy of the sorted categories plus \<open>provides_obsoletes\<close>.\<close>

definition categories_with_package_tokens :: "string list" where
  "categories_with_package_tokens =
     categories_with_sorted_package_tokens @ [''provides_obsoletes'']"

section \<open>Value normalisation\<close>

definition pkgname_to_pkgconfig :: "env \<Rightarrow> string \<Rightarrow> error + string list" where
  "pkgname_to_pkgconfig e value =
     (case py_split value of
        [] \<Rightarrow> Inl IndexError
      | pkgname # _ \<Rightarrow>
          (let version = py_replace pkgname [] value in
           case pkgconfig_conversions e pkgname of
             None \<Rightarrow> Inr [value]
           | Some conv \<Rightarrow>
               Inr (map (\<lambda>j. ''pkgconfig('' @ j @ '')'' @ version) (py_split conv))))"

fun expand_tokens :: "env \<Rightarrow> string list \<Rightarrow> error + string list" where
  "expand_tokens e [] = Inr []"
| "expand_tokens e (token # rest) =
     (let t1 = py_replace ''%{version}-%{release}'' ''%{version}'' token;
          t2 = py_replace '' '' [] t1;
          t3 = py_replace '','' [] t2;
          t4 = sub_operators t3
      in case pkgname_to_pkgconfig e t4 of
           Inl err \<Rightarrow> Inl err
         | Inr ts \<Rightarrow>
             (case expand_tokens e rest of
                Inl err \<Rightarrow> Inl err
              | Inr others \<Rightarrow> Inr (ts @ others)))"

definition fix_list_of_packages :: "env \<Rightarrow> string \<Rightarrow> error + string list" where
  "fix_list_of_packages e value =
     (if re_requires_token (reg e) value \<noteq> None then
        (case mapE (\<lambda>item. py_index item 1) (re_requires_token_findall (reg e) value) of
           Inl err \<Rightarrow> Inl err
         | Inr tokens \<Rightarrow>
             (case expand_tokens e tokens of
                Inl err \<Rightarrow> Inl err
              | Inr expanded \<Rightarrow> Inr (sort expanded)))
      else Inr [value])"

section \<open>Committing lines to a category\<close>

definition add_line_to :: "string \<Rightarrow> string \<Rightarrow> state \<Rightarrow> outcome" where
  "add_line_to category line st =
     (if current_group st \<noteq> [] then
        (let st1 = st\<lparr>current_group := current_group st @ [GStr line]\<rparr> in
         case paragraph' st1 category of
           None \<Rightarrow> Inl (KeyError category, st1)
         | Some gs \<Rightarrow>
             Inr (st1\<lparr>paragraph' := (paragraph' st1)(category \<mapsto> gs @ [GList (current_group st1)]),
                      current_group := [],
                      previous_line := Some line\<rparr>))
      else
        (case paragraph' st category of
           None \<Rightarrow> Inl (KeyError category, st)
         | Some gs \<Rightarrow>
             Inr (st\<lparr>paragraph' := (paragraph' st)(category \<mapsto> gs @ [GStr line]),
                     previous_line := Some line\<rparr>)))"

definition keylen :: nat where
  "keylen = length ''BuildRequires:  ''"

text \<open>\<open>while len(key) < keylen: key += ' '\<close>\<close>

function fill_key :: "string \<Rightarrow> string" where
  "fill_key key = (if length key < keylen then fill_key (key @ '' '') else key)"
  by pat_completeness auto
termination
  by (relation "measure (\<lambda>key. keylen - length key)") auto

definition format_key :: "string \<Rightarrow> string" where
  "format_key key =
     (let k1 = key @ '':'';
          k2 = (if length k1 \<ge> keylen then k1 @ '' '' else k1)
      in fill_key k2)"

text \<open>\<open>if key: pass / elif has_key(category): ... / else: raise\<close>; \<open>None\<close> and the empty
  string are both false.\<close>

definition resolve_key :: "string \<Rightarrow> string option \<Rightarrow> error + string" where
  "resolve_key category key =
     (if key \<noteq> None \<and> key \<noteq> Some [] then Inr (the key)
      else (case category_to_key category of
              Some k \<Rightarrow> Inr k
            | None \<Rightarrow> Inl (RpmException (''Unhandled category in preamble: '' @ category))))"

fun add_lines_to :: "string \<Rightarrow> string \<Rightarrow> string list \<Rightarrow> state \<Rightarrow> outcome" where
  "add_lines_to category key [] st = Inr st"
| "add_lines_to category key (v # vs) st =
     (case add_line_to category (key @ v) st of
        Inl err \<Rightarrow> Inl err
      | Inr st' \<Rightarrow> add_lines_to category key vs st')"

definition add_line_value_to :: "env \<Rightarrow> string \<Rightarrow> string \<Rightarrow> string option \<Rightarrow> state \<Rightarrow> outcome" where
  "add_line_value_to e category value key st =
     (case resolve_key category key of
        Inl err \<Rightarrow> Inl (err, st)
      | Inr k \<Rightarrow>
          (case (if category \<in> set categories_with_package_tokens
                 then fix_list_of_packages e value else Inr [value]) of
             Inl err \<Rightarrow> Inl (err, st)
           | Inr values \<Rightarrow> add_lines_to category (format_key k) values st))"

section \<open>Sort keys\<close>

text \<open>
  \<open>int(s)\<close> of Python 2 on a \<open>str\<close>: surrounding whitespace, an optional sign (which may be
  followed by whitespace), then at least one decimal digit and nothing else.
\<close>

definition is_digit :: "char \<Rightarrow> bool" where
  "is_digit c = (CHR ''0'' \<le> c \<and> c \<le> CHR ''9'')"

fun digits_to_int :: "int \<Rightarrow> string \<Rightarrow> int option" where
  "digits_to_int acc [] = Some acc"
| "digits_to_int acc (c # cs) =
     (if is_digit c then digits_to_int (10 * acc + (of_char c - 48)) cs else None)"

definition py_strip :: "string \<Rightarrow> string" where
  "py_strip s = rev (dropWhile is_space (rev (dropWhile is_space s)))"

definition py_int :: "string \<Rightarrow> error + int" where
  "py_int s =
     (let t = py_strip s;
          signed = (t \<noteq> [] \<and> (hd t = CHR ''-'' \<or> hd t = CHR ''+''));
          d = (if signed then dropWhile is_space (tl t) else t)
      in if d = [] then Inl ValueError
         else (case digits_to_int 0 d of
                 None \<Rightarrow> Inl ValueError
               | Some n \<Rightarrow> Inr (if signed \<and> hd t = CHR ''-'' then - n else n)))"

text \<open>
  \<open>_sort_helper_key\<close> returns an \<open>int\<close> or a \<open>str\<close>. Python 2 compares the two kinds with
  each other: every number is smaller than every string; numbers compare by value and
  strings byte by byte.
\<close>

datatype skey = KInt int | KStr string

instantiation skey :: linorder
begin

fun less_eq_skey :: "skey \<Rightarrow> skey \<Rightarrow> bool" where
  "less_eq_skey (KInt a) (KInt b) = (a \<le> b)"
| "less_eq_skey (KInt a) (KStr t) = True"
| "less_eq_skey (KStr s) (KInt b) = False"
| "less_eq_skey (KStr s) (KStr t) = (s \<le> t)"

definition less_skey :: "skey \<Rightarrow> skey \<Rightarrow> bool" where
  "less_skey x y = (x \<le> y \<and> \<not> y \<le> x)"

instance
proof
  fix x y z :: skey
  show "(x < y) = (x \<le> y \<and> \<not> y \<le> x)"
    by (simp add: less_skey_def)
  show "x \<le> x"
    by (cases x) simp_all
  show "x \<le> y \<Longrightarrow> y \<le> z \<Longrightarrow> x \<le> z"
    by (cases x; cases y; cases z) auto
  show "x \<le> y \<Longrightarrow> y \<le> x \<Longrightarrow> x = y"
    by (cases x; cases y) auto
  show "x \<le> y \<or> y \<le> x"
    by (cases x; cases y) auto
qed

end

definition sort_helper_key :: "env \<Rightarrow> group \<Rightarrow> error + skey" where
  "sort_helper_key e a =
     (case (case a of
              GStr s \<Rightarrow> Inr (GStr s)
            | GList gs \<Rightarrow> (if gs = [] then Inl IndexError else Inr (last gs))
            | GOther t \<Rightarrow> Inl (RpmException (''Unknown type during sort: '' @ t))) of
        Inl err \<Rightarrow> Inl err
      | Inr (GStr key) \<Rightarrow>
          (case re_patch (reg e) key of
             Some m \<Rightarrow>
               (case mgroup m 2 of
                  Inl err \<Rightarrow> Inl err
                | Inr num \<Rightarrow>
                    (case py_int num of Inl err \<Rightarrow> Inl err | Inr n \<Rightarrow> Inr (KInt n)))
           | None \<Rightarrow>
               (case re_source (reg e) key of
                  Some m \<Rightarrow>
                    (case mgroup m 1 of
                       Inl err \<Rightarrow> Inl err
                     | Inr value \<Rightarrow>
                         (case py_int (if value = [] then ''0'' else value) of
                            Inl err \<Rightarrow> Inl err
                          | Inr n \<Rightarrow> Inr (KInt n)))
                | None \<Rightarrow>
                    (if py_contains ''pkgconfig('' key then Inr (KStr (''1'' @ key))
                     else Inr (KStr (''0'' @ key)))))
      | Inr _ \<Rightarrow> Inl TypeError)"

text \<open>
  \<open>list.sort(key=self._sort_helper_key)\<close>: the keys are computed first (the first
  exception of a key aborts the sort and leaves the list as it was), then the list is
  sorted by them, stably.
\<close>

definition sort_groups :: "env \<Rightarrow> group list \<Rightarrow> error + group list" where
  "sort_groups e gs =
     (case mapE (sort_helper_key e) gs of
        Inl err \<Rightarrow> Inl err
      | Inr ks \<Rightarrow> Inr (map snd (sort_key fst (zip ks gs))))"

section \<open>Paragraphs\<close>

definition start_paragraph :: "state \<Rightarrow> state" where
  "start_paragraph st =
     st\<lparr>paragraph' := fold (\<lambda>i p. p(i \<mapsto> [])) categories_order Map.empty,
        current_group := []\<rparr>"

text \<open>
  Modelled from the spec: \<open>Section.add\<close>, the append-line operation of the line sink,
  which this file inherits and does not define. It appends the line to \<open>self.lines\<close> and
  records it as the previous line (the sub-package variant relies on the latter: after
  its first line, \<open>self.previous_line\<close> is no longer \<open>None\<close>).
\<close>

definition section_add :: "string \<Rightarrow> state \<Rightarrow> state" where
  "section_add line st = st\<lparr>lines := lines st @ [line], previous_line := Some line\<rparr>"

fun add_group :: "group \<Rightarrow> state \<Rightarrow> outcome"
  and add_groups :: "group list \<Rightarrow> state \<Rightarrow> outcome" where
  "add_group (GStr s) st = Inr (section_add s st)"
| "add_group (GList gs) st = add_groups gs st"
| "add_group (GOther t) st =
     Inl (RpmException (''Unknown type of group in preamble: '' @ t), st)"
| "add_groups [] st = Inr st"
| "add_groups (g # gs) st =
     (case add_group g st of
        Inl err \<Rightarrow> Inl err
      | Inr st' \<Rightarrow> add_groups gs st')"

definition sort_category :: "env \<Rightarrow> string \<Rightarrow> state \<Rightarrow> outcome" where
  "sort_category e i st =
     (case paragraph' st i of
        None \<Rightarrow> Inl (KeyError i, st)
      | Some gs \<Rightarrow>
          (case sort_groups e gs of
             Inl err \<Rightarrow> Inl (err, st)
           | Inr gs' \<Rightarrow> Inr (st\<lparr>paragraph' := (paragraph' st)(i \<mapsto> gs')\<rparr>)))"

text \<open>The body of the loop of \<open>_end_paragraph\<close>, for the category \<open>i\<close>.\<close>

definition end_category :: "env \<Rightarrow> string \<Rightarrow> state \<Rightarrow> outcome" where
  "end_category e i st =
     (case (if i \<in> set categories_with_sorted_package_tokens
            then sort_category e i st else Inr st) of
        Inl err \<Rightarrow> Inl err
      | Inr st1 \<Rightarrow>
          (case (if i \<in> set categories_with_sorted_keyword_tokens
                 then sort_category e i st1 else Inr st1) of
             Inl err \<Rightarrow> Inl err
           | Inr st2 \<Rightarrow>
               (case paragraph' st2 i of
                  None \<Rightarrow> Inl (KeyError i, st2)
                | Some gs \<Rightarrow> add_groups gs st2)))"

fun end_categories :: "env \<Rightarrow> string list \<Rightarrow> state \<Rightarrow> outcome" where
  "end_categories e [] st = Inr st"
| "end_categories e (i # rest) st =
     (case end_category e i st of
        Inl err \<Rightarrow> Inl err
      | Inr st' \<Rightarrow> end_categories e rest st')"

definition end_paragraph :: "env \<Rightarrow> state \<Rightarrow> outcome" where
  "end_paragraph e st =
     (case end_categories e categories_order st of
        Inl err \<Rightarrow> Inl err
      | Inr st1 \<Rightarrow>
          (case (if current_group st1 \<noteq> []
                 then add_group (GList (current_group st1)) st1 else Inr st1) of
             Inl err \<Rightarrow> Inl err
           | Inr st2 \<Rightarrow> Inr (start_paragraph st2)))"

section \<open>Licenses\<close>

text \<open>
  \<open>re.split('(\(|\)| and | or )', value)\<close>: the pieces between the separators and the
  separators themselves, in order. \<open>cur\<close> is the piece being read, the counter the
  number of characters of a separator still to skip.
\<close>

fun re_split_license :: "string \<Rightarrow> nat \<Rightarrow> string \<Rightarrow> string list" where
  "re_split_license cur k [] = [cur]"
| "re_split_license cur (Suc k) (c # cs) = re_split_license cur k cs"
| "re_split_license cur 0 (c # cs) =
     (if c = CHR ''('' then cur # ''('' # re_split_license [] 0 cs
      else if c = CHR '')'' then cur # '')'' # re_split_license [] 0 cs
      else if prefix '' and '' (c # cs) then cur # '' and '' # re_split_license [] 4 cs
      else if prefix '' or '' (c # cs) then cur # '' or '' # re_split_license [] 3 cs
      else re_split_license (cur @ [c]) 0 cs)"

text \<open>The body of the loop of \<open>_fix_license\<close>, for one token.\<close>

definition fix_license_token :: "env \<Rightarrow> string \<Rightarrow> string" where
  "fix_license_token e license =
     (let l1 = strip_useless_spaces e license;
          l2 = py_replace ''ORlater'' ''or later'' l1;
          l3 = py_replace ''ORsim'' ''or similar'' l2
      in case license_conversions e l3 of Some c \<Rightarrow> c | None \<Rightarrow> l3)"

definition fix_license :: "env \<Rightarrow> string \<Rightarrow> string" where
  "fix_license e value =
     (let licenses = filter (\<lambda>a. a \<noteq> []) (re_split_license [] 0 value);
          licenses' = map (fix_license_token e) licenses
      in py_replace '' )'' '')'' (py_replace ''( '' ''('' (py_join '' '' licenses')))"

section \<open>Line dispatch\<close>

text \<open>
  The two dictionaries of patterns set up in \<open>__init__\<close>. \<open>add\<close> iterates over them and
  takes the first pattern that matches; the order in which Python 2 iterates over a
  dictionary is fixed but not specified, and the model takes the order in which the
  entries are written. (It matters only for a line that several patterns match.)
\<close>

definition category_to_re :: "regs \<Rightarrow> (string \<times> pattern) list" where
  "category_to_re r =
     [(''define'', re_define r),
      (''name'', re_name r),
      (''version'', re_version r),
      (''summary'', re_summary r),
      (''url'', re_url r),
      (''group'', re_group r),
      (''buildrequires'', re_buildrequires r),
      (''requires'', re_requires r),
      (''recommends'', re_recommends r),
      (''suggests'', re_suggests r),
      (''supplements'', re_supplements r),
      (''buildarch'', re_buildarch r)]"

definition category_to_clean :: "regs \<Rightarrow> (string \<times> pattern) list" where
  "category_to_clean r =
     [(''vendor'', re_vendor r),
      (''autoreqprov'', re_autoreqprov r),
      (''epoch'', re_epoch r)]"

text \<open>The branches of \<open>add\<close>, one definition for each; \<open>m\<close> is the match of the branch's
  pattern on the line.\<close>

definition add_source :: "env \<Rightarrow> match \<Rightarrow> state \<Rightarrow> outcome" where
  "add_source e m st =
     (case mgroup m 2 of
        Inl err \<Rightarrow> Inl (err, st)
      | Inr value \<Rightarrow>
          (case mgroup m 1 of
             Inl err \<Rightarrow> Inl (err, st)
           | Inr num \<Rightarrow> add_line_value_to e ''source'' value (Some (''Source'' @ num)) st))"

definition patch_missing_tag :: string where
  "patch_missing_tag =
     ''# PATCH-MISSING-TAG -- See http://wiki.opensuse.org/openSUSE:Packaging_Patches_guidelines''"

text \<open>\<open>not self.previous_line or not self.reg.re_comment.match(self.previous_line)\<close>\<close>

definition lacks_comment :: "env \<Rightarrow> state \<Rightarrow> bool" where
  "lacks_comment e st =
     (case previous_line st of
        None \<Rightarrow> True
      | Some p \<Rightarrow> p = [] \<or> re_comment (reg e) p = None)"

definition add_patch :: "env \<Rightarrow> string \<Rightarrow> match \<Rightarrow> state \<Rightarrow> outcome" where
  "add_patch e line m st =
     (let st1 = (if lacks_comment e st
                 then st\<lparr>current_group := current_group st @ [GStr patch_missing_tag],
                         previous_line := Some line\<rparr>
                 else st)
      in case mgroup m 2 of
           Inl err \<Rightarrow> Inl (err, st1)
         | Inr num \<Rightarrow>
             (let zero = (if num = [] then ''0'' else []) in
              case mgroup m 3 of
                Inl err \<Rightarrow> Inl (err, st1)
              | Inr value \<Rightarrow>
                  (case mgroup m 1 of
                     Inl err \<Rightarrow> Inl (err, st1)
                   | Inr pre \<Rightarrow>
                       add_line_value_to e ''patch'' value
                         (Some (pre @ ''Patch'' @ zero @ num)) st1)))"

definition prereq_fixme :: string where
  "prereq_fixme = ''# FIXME: use proper Requires(pre/post/preun/...)''"

definition add_prereq :: "env \<Rightarrow> match \<Rightarrow> state \<Rightarrow> outcome" where
  "add_prereq e m st =
     (let st1 = st\<lparr>current_group := current_group st @ [GStr prereq_fixme]\<rparr> in
      case mgroup m 1 of
        Inl err \<Rightarrow> Inl (err, st1)
      | Inr value \<Rightarrow> add_line_value_to e ''prereq'' value None st1)"

definition add_requires_phase :: "env \<Rightarrow> match \<Rightarrow> state \<Rightarrow> outcome" where
  "add_requires_phase e m st =
     (case mgroup m 2 of
        Inl err \<Rightarrow> Inl (err, st)
      | Inr value \<Rightarrow>
          (case mgroup m 1 of
             Inl err \<Rightarrow> Inl (err, st)
           | Inr phase \<Rightarrow>
               add_line_value_to e ''prereq'' value (Some (''Requires'' @ phase)) st))"

text \<open>
  The two branches for Provides and Obsoletes test \<open>self.reg.re_provides\<close> and
  \<open>self.reg.re_obsoletes\<close> but then match with \<open>self.re_provides\<close> and
  \<open>self.re_obsoletes\<close>, attributes of the instance itself: \<open>attr\<close> is the attribute's name,
  looked up in \<open>self_attr\<close>. A missing attribute raises, and so does \<open>.group\<close> on the
  \<open>None\<close> of a failed match.
\<close>

definition add_provides_obsoletes :: "env \<Rightarrow> string \<Rightarrow> string \<Rightarrow> string \<Rightarrow> state \<Rightarrow> outcome" where
  "add_provides_obsoletes e attr key line st =
     (case self_attr e attr of
        None \<Rightarrow> Inl (AttributeError attr, st)
      | Some p \<Rightarrow>
          (case p line of
             None \<Rightarrow> Inl (AttributeError ''group'', st)
           | Some m \<Rightarrow>
               (case mgroup m 1 of
                  Inl err \<Rightarrow> Inl (err, st)
                | Inr value \<Rightarrow>
                    add_line_value_to e ''provides_obsoletes'' value (Some key) st)))"

definition add_buildroot :: "env \<Rightarrow> state \<Rightarrow> outcome" where
  "add_buildroot e st =
     (case paragraph' st ''buildroot'' of
        None \<Rightarrow> Inl (KeyError ''buildroot'', st)
      | Some gs \<Rightarrow>
          (if length gs = 0
           then add_line_value_to e ''buildroot'' ''%{_tmppath}/%{name}-%{version}-build'' None st
           else Inr st))"

definition add_license :: "env \<Rightarrow> match \<Rightarrow> state \<Rightarrow> outcome" where
  "add_license e m st =
     (case last_group m of
        Inl err \<Rightarrow> Inl (err, st)
      | Inr value \<Rightarrow> add_line_value_to e ''license'' (fix_license e value) None st)"

definition add_summary_localized :: "env \<Rightarrow> match \<Rightarrow> state \<Rightarrow> outcome" where
  "add_summary_localized e m st =
     (case mgroup m 1 of
        Inl err \<Rightarrow> Inl (err, st)
      | Inr language \<Rightarrow>
          (case mgroup m 2 of
             Inl err \<Rightarrow> Inl (err, st)
           | Inr content \<Rightarrow>
               add_line_value_to e ''summary_localized'' content
                 (Some (''Summary'' @ language)) st))"

text \<open>The loop over \<open>category_to_re\<close>, and the fall-through to \<open>misc\<close>.\<close>

fun simple_matching :: "env \<Rightarrow> (string \<times> pattern) list \<Rightarrow> string \<Rightarrow> state \<Rightarrow> outcome" where
  "simple_matching e [] line st = add_line_to ''misc'' line st"
| "simple_matching e ((category, regexp) # rest) line st =
     (case regexp line of
        Some m \<Rightarrow>
          (case last_group m of
             Inl err \<Rightarrow> Inl (err, st)
           | Inr value \<Rightarrow> add_line_value_to e category value None st)
      | None \<Rightarrow> simple_matching e rest line st)"

definition add_other :: "env \<Rightarrow> string \<Rightarrow> state \<Rightarrow> outcome" where
  "add_other e line st =
     (if list_ex (\<lambda>(category, regexp). regexp line \<noteq> None) (category_to_clean (reg e))
      then Inr st
      else simple_matching e (category_to_re (reg e)) line st)"

definition add :: "env \<Rightarrow> string \<Rightarrow> state \<Rightarrow> outcome" where
  "add e raw st =
     (let line = complete_cleanup e raw; r = reg e in
      if length line = 0 then Inr st
      else if re_if r line \<noteq> None then
        (case end_paragraph e (st\<lparr>current_group := current_group st @ [GStr line]\<rparr>) of
           Inl err \<Rightarrow> Inl err
         | Inr st1 \<Rightarrow> Inr (st1\<lparr>previous_line := Some line\<rparr>))
      else if re_comment r line \<noteq> None then
        Inr (st\<lparr>current_group := current_group st @ [GStr line], previous_line := Some line\<rparr>)
      else if re_source r line \<noteq> None then add_source e (the (re_source r line)) st
      else if re_patch r line \<noteq> None then add_patch e line (the (re_patch r line)) st
      else if re_prereq r line \<noteq> None then add_prereq e (the (re_prereq r line)) st
      else if re_requires_phase r line \<noteq> None
        then add_requires_phase e (the (re_requires_phase r line)) st
      else if re_provides r line \<noteq> None
        then add_provides_obsoletes e ''re_provides'' ''Provides'' line st
      else if re_obsoletes r line \<noteq> None
        then add_provides_obsoletes e ''re_obsoletes'' ''Obsoletes'' line st
      else if re_buildroot r line \<noteq> None then add_buildroot e st
      else if re_license r line \<noteq> None then add_license e (the (re_license r line)) st
      else if re_release r line \<noteq> None then add_line_value_to e ''release'' ''0'' None st
      else if re_summary_localized r line \<noteq> None
        then add_summary_localized e (the (re_summary_localized r line)) st
      else add_other e line st)"

text \<open>\<open>output\<close> (here \<open>output'\<close>): what is written is \<open>lines\<close> of the state returned.\<close>

definition output' :: "env \<Rightarrow> state \<Rightarrow> outcome" where
  "output' e st =
     (case end_paragraph e st of
        Inl err \<Rightarrow> Inl err
      | Inr st1 \<Rightarrow> Inr (st1\<lparr>lines := lines st1 @ [[]]\<rparr>))"

text \<open>\<open>RpmPackage.add\<close>\<close>

definition package_add :: "env \<Rightarrow> string \<Rightarrow> state \<Rightarrow> outcome" where
  "package_add e line st =
     (if previous_line st = None then Inr (section_add line st) else add e line st)"

text \<open>
  A fresh engine (\<open>__init__\<close>: no line, no previous line, an empty paragraph), and the
  driver: every line is added in turn, then the section is written.
\<close>

definition init_state :: state where
  "init_state =
     start_paragraph \<lparr>lines = [], previous_line = None, paragraph' = Map.empty,
                      current_group = []\<rparr>"

fun add_all :: "env \<Rightarrow> string list \<Rightarrow> state \<Rightarrow> outcome" where
  "add_all e [] st = Inr st"
| "add_all e (l # ls) st =
     (case add e l st of
        Inl err \<Rightarrow> Inl err
      | Inr st' \<Rightarrow> add_all e ls st')"

definition run :: "env \<Rightarrow> string list \<Rightarrow> error + string list" where
  "run e ls =
     (case add_all e ls init_state of
        Inl (err, _) \<Rightarrow> Inl err
      | Inr st \<Rightarrow>
          (case output' e st of
             Inl (err, _) \<Rightarrow> Inl err
           | Inr st' \<Rightarrow> Inr (lines st')))"

section \<open>A pattern table and an environment to run the engine on\<close>

text \<open>
  Modelled from the spec: the line classifier (the pattern table \<open>self.reg\<close>, whose module
  is not part of this file). It is described only as mapping a raw line to a category
  plus captured sub-values; the table below classifies a line by the tag that starts it
  and captures what follows the colon, and for a numbered or parenthesised tag also the
  number or the parenthesis. It serves to run the engine on concrete lines.
\<close>

definition tag_pattern :: "string \<Rightarrow> pattern" where
  "tag_pattern tag line =
     (if prefix (tag @ '':'') line
      then Some [dropWhile is_space (drop (length tag + 1) line)]
      else None)"

definition numbered_pattern :: "string \<Rightarrow> pattern" where
  "numbered_pattern tag line =
     (if prefix tag line then
        (let rest = drop (length tag) line in
         case dropWhile is_digit rest of
           [] \<Rightarrow> None
         | c # after \<Rightarrow>
             if c = CHR '':'' then Some [takeWhile is_digit rest, dropWhile is_space after]
             else None)
      else None)"

definition paren_pattern :: "string \<Rightarrow> pattern" where
  "paren_pattern tag line =
     (if prefix (tag @ ''('') line then
        (let rest = drop (length tag) line in
         case dropWhile (\<lambda>c. c \<noteq> CHR '')'') rest of
           c # d # after \<Rightarrow>
             if d = CHR '':''
             then Some [takeWhile (\<lambda>c. c \<noteq> CHR '')'') rest @ '')'', dropWhile is_space after]
             else None
         | _ \<Rightarrow> None)
      else None)"

definition starts_pattern :: "string list \<Rightarrow> pattern" where
  "starts_pattern starts line = (if list_ex (\<lambda>p. prefix p line) starts then Some [] else None)"

text \<open>Modelled from the spec: a dependency value is a list of tokens separated by commas
  or whitespace, a token being a name with an optional version qualifier.\<close>

fun merge_qualifiers :: "string list \<Rightarrow> string list" where
  "merge_qualifiers (w # opr # v # rest) =
     (if opr \<in> set [''<'', ''<='', ''='', ''>='', ''>'']
      then (w @ '' '' @ opr @ '' '' @ v) # merge_qualifiers rest
      else w # merge_qualifiers (opr # v # rest))"
| "merge_qualifiers ws = ws"

definition dependency_tokens :: "string \<Rightarrow> string list" where
  "dependency_tokens value =
     merge_qualifiers (py_split (map (\<lambda>c. if c = CHR '','' then CHR '' '' else c) value))"

definition example_regs :: regs where
  "example_regs =
     \<lparr>re_if = starts_pattern [''%if'', ''%else'', ''%endif''],
      re_comment = starts_pattern [''#''],
      re_source = numbered_pattern ''Source'',
      re_patch = (\<lambda>line. map_option (\<lambda>m. [] # m) (numbered_pattern ''Patch'' line)),
      re_prereq = tag_pattern ''PreReq'',
      re_requires_phase = paren_pattern ''Requires'',
      re_provides = tag_pattern ''Provides'',
      re_obsoletes = tag_pattern ''Obsoletes'',
      re_buildroot = tag_pattern ''BuildRoot'',
      re_license = tag_pattern ''License'',
      re_release = tag_pattern ''Release'',
      re_summary_localized = paren_pattern ''Summary'',
      re_define = (\<lambda>line. if prefix ''%define '' line then Some [drop 8 line] else None),
      re_name = tag_pattern ''Name'',
      re_version = tag_pattern ''Version'',
      re_summary = tag_pattern ''Summary'',
      re_url = tag_pattern ''Url'',
      re_group = tag_pattern ''Group'',
      re_buildrequires = tag_pattern ''BuildRequires'',
      re_requires = tag_pattern ''Requires'',
      re_recommends = tag_pattern ''Recommends'',
      re_suggests = tag_pattern ''Suggests'',
      re_supplements = tag_pattern ''Supplements'',
      re_buildarch = tag_pattern ''BuildArch'',
      re_vendor = tag_pattern ''Vendor'',
      re_autoreqprov = tag_pattern ''AutoReqProv'',
      re_epoch = tag_pattern ''Epoch'',
      re_requires_token = (\<lambda>value. if dependency_tokens value = [] then None else Some []),
      re_requires_token_findall = (\<lambda>value. map (\<lambda>t. [t, t, []]) (dependency_tokens value))\<rparr>"

text \<open>
  Modelled from the spec: the rest of the environment. The license aliases are those of
  the spec's example (deprecated \<open>Foo\<close> and \<open>Bar\<close>, canonical \<open>Foo-1.0\<close> and \<open>Bar-2.0\<close>), one
  library name has a package-name conversion, the cleanup of a line removes trailing
  whitespace, a license token is whitespace-trimmed, and the instance has no pattern
  attribute of its own.
\<close>

definition example_env :: env where
  "example_env =
     \<lparr>reg = example_regs,
      license_conversions = map_of [(''Foo'', ''Foo-1.0''), (''Bar'', ''Bar-2.0'')],
      pkgconfig_conversions = map_of [(''libbar'', ''bar1 bar2'')],
      complete_cleanup = (\<lambda>line. rev (dropWhile is_space (rev line))),
      strip_useless_spaces = py_strip,
      self_attr = Map.empty\<rparr>"

section \<open>Reading a state\<close>

text \<open>
  The lines a group holds, in the order \<open>_add_group\<close> hands them to the sink; the lines
  stored in a category; the lines of the pending group.
\<close>

fun group_lines :: "group \<Rightarrow> string list" where
  "group_lines (GStr s) = [s]"
| "group_lines (GList gs) = concat (map group_lines gs)"
| "group_lines (GOther t) = []"

definition category_lines :: "state \<Rightarrow> string \<Rightarrow> string list" where
  "category_lines st c =
     (case paragraph' st c of None \<Rightarrow> [] | Some gs \<Rightarrow> concat (map group_lines gs))"

definition pending_lines :: "state \<Rightarrow> string list" where
  "pending_lines st = concat (map group_lines (current_group st))"

text \<open>
  The exception of an outcome, if it raised, and the state it reached either way.
\<close>

definition raised :: "outcome \<Rightarrow> error option" where
  "raised r = (case r of Inl (err, _) \<Rightarrow> Some err | Inr _ \<Rightarrow> None)"

definition reached :: "outcome \<Rightarrow> state" where
  "reached r = (case r of Inl (_, st) \<Rightarrow> st | Inr st \<Rightarrow> st)"

text \<open>
  What flattening a group hands to the sink, read off the group: the lines in order, up
  to the first value that is neither a line nor a list, and the type name of that value
  if there is one.
\<close>

fun scan_group :: "group \<Rightarrow> string list \<times> string option"
  and scan_groups :: "group list \<Rightarrow> string list \<times> string option" where
  "scan_group (GStr s) = ([s], None)"
| "scan_group (GList gs) = scan_groups gs"
| "scan_group (GOther t) = ([], Some t)"
| "scan_groups [] = ([], None)"
| "scan_groups (g # gs) =
     (case scan_group g of
        (ls, Some t) \<Rightarrow> (ls, Some t)
      | (ls, None) \<Rightarrow> (case scan_groups gs of (ls', r) \<Rightarrow> (ls @ ls', r)))"

section \<open>Which branch of \<open>add\<close> a line takes\<close>

text \<open>
  \<open>add\<close> tries the patterns in a fixed order on the cleaned-up line; a line takes the
  branch of the first pattern that matches. \<open>unmatched e ps l\<close>: none of the patterns
  \<open>ps\<close> matches \<open>l\<close>.
\<close>

definition unmatched :: "env \<Rightarrow> (regs \<Rightarrow> pattern) list \<Rightarrow> string \<Rightarrow> bool" where
  "unmatched e ps l = list_all (\<lambda>p. p (reg e) l = None) ps"

definition comment_line :: "env \<Rightarrow> string \<Rightarrow> bool" where
  "comment_line e l = (l \<noteq> [] \<and> unmatched e [re_if] l \<and> re_comment (reg e) l \<noteq> None)"

definition source_line :: "env \<Rightarrow> string \<Rightarrow> bool" where
  "source_line e l =
     (l \<noteq> [] \<and> unmatched e [re_if, re_comment] l \<and> re_source (reg e) l \<noteq> None)"

definition patch_line :: "env \<Rightarrow> string \<Rightarrow> bool" where
  "patch_line e l =
     (l \<noteq> [] \<and> unmatched e [re_if, re_comment, re_source] l \<and> re_patch (reg e) l \<noteq> None)"

definition prereq_line :: "env \<Rightarrow> string \<Rightarrow> bool" where
  "prereq_line e l =
     (l \<noteq> [] \<and> unmatched e [re_if, re_comment, re_source, re_patch] l
      \<and> re_prereq (reg e) l \<noteq> None)"

definition requires_phase_line :: "env \<Rightarrow> string \<Rightarrow> bool" where
  "requires_phase_line e l =
     (l \<noteq> [] \<and> unmatched e [re_if, re_comment, re_source, re_patch, re_prereq] l
      \<and> re_requires_phase (reg e) l \<noteq> None)"

definition provides_line :: "env \<Rightarrow> string \<Rightarrow> bool" where
  "provides_line e l =
     (l \<noteq> []
      \<and> unmatched e [re_if, re_comment, re_source, re_patch, re_prereq, re_requires_phase] l
      \<and> re_provides (reg e) l \<noteq> None)"

definition obsoletes_line :: "env \<Rightarrow> string \<Rightarrow> bool" where
  "obsoletes_line e l =
     (l \<noteq> []
      \<and> unmatched e [re_if, re_comment, re_source, re_patch, re_prereq, re_requires_phase,
                      re_provides] l
      \<and> re_obsoletes (reg e) l \<noteq> None)"

definition license_line :: "env \<Rightarrow> string \<Rightarrow> bool" where
  "license_line e l =
     (l \<noteq> []
      \<and> unmatched e [re_if, re_comment, re_source, re_patch, re_prereq, re_requires_phase,
                      re_provides, re_obsoletes, re_buildroot] l
      \<and> re_license (reg e) l \<noteq> None)"

section \<open>The order of emission\<close>

text \<open>
  For stating the order in which closing a paragraph emits its lines: whether a category
  is one of the sorted ones; the groups stored in a category; the order in which the
  groups of a category are emitted (sorted if the category is sortable, as stored
  otherwise); the lines emitted for a category; and all lines emitted for the categories,
  each paired with the rank of its category in \<open>categories_order\<close>.
\<close>

definition sortable :: "string \<Rightarrow> bool" where
  "sortable i = (i \<in> set categories_with_sorted_package_tokens
                 \<or> i \<in> set categories_with_sorted_keyword_tokens)"

definition slot :: "state \<Rightarrow> string \<Rightarrow> group list" where
  "slot st i = (case paragraph' st i of None \<Rightarrow> [] | Some gs \<Rightarrow> gs)"

definition emission_order :: "env \<Rightarrow> string \<Rightarrow> group list \<Rightarrow> group list" where
  "emission_order e i gs =
     (if sortable i then (case sort_groups e gs of Inl _ \<Rightarrow> gs | Inr gs' \<Rightarrow> gs') else gs)"

definition emitted_lines :: "env \<Rightarrow> state \<Rightarrow> string \<Rightarrow> string list" where
  "emitted_lines e st i = concat (map group_lines (emission_order e i (slot st i)))"

definition ranked_lines :: "env \<Rightarrow> state \<Rightarrow> (nat \<times> string) list" where
  "ranked_lines e st =
     concat (map (\<lambda>(r, i). map (Pair r) (emitted_lines e st i)) (enumerate 0 categories_order))"

section \<open>Key formatting\<close>

lemma keylen_16: "keylen = 16"
  by (simp add: keylen_def)

lemma fill_key_eq: "fill_key k = k @ replicate (keylen - length k) (CHR '' '')"
proof (induction k rule: fill_key.induct)
  case (1 key)
  show ?case
  proof (cases "length key < keylen")
    case True
    then have "keylen - length key = Suc (keylen - length (key @ '' ''))" by simp
    with 1 True show ?thesis
      by (subst fill_key.simps) (simp add: replicate_app_Cons_same)
  next
    case False
    then show ?thesis by (subst fill_key.simps) simp
  qed
qed

lemma format_key_keylen:
  "format_key k =
     k @ '':'' @ replicate (if length (k @ '':'') < keylen
                            then keylen - length (k @ '':'') else 1) (CHR '' '')"
proof (cases "length (k @ '':'') < keylen")
  case True
  then have "format_key k = fill_key (k @ '':'')" by (simp add: format_key_def Let_def)
  also have "\<dots> = (k @ '':'') @ replicate (keylen - length (k @ '':'')) (CHR '' '')"
    by (rule fill_key_eq)
  finally show ?thesis using True by simp
next
  case False
  then have "format_key k = fill_key ((k @ '':'') @ '' '')"
    by (simp add: format_key_def Let_def)
  also have "\<dots> = ((k @ '':'') @ '' '')
                @ replicate (keylen - length ((k @ '':'') @ '' '')) (CHR '' '')"
    by (rule fill_key_eq)
  also from False have "keylen - length ((k @ '':'') @ '' '') = 0" by simp
  finally show ?thesis using False by simp
qed

lemma format_key_eq:
  "format_key k =
     k @ '':'' @ replicate (if length (k @ '':'') < 16
                            then 16 - length (k @ '':'') else 1) (CHR '' '')"
  using format_key_keylen[of k] unfolding keylen_16 .

section \<open>What committing a line changes\<close>

lemma add_line_to_lines:
  assumes "add_line_to c l st = Inr st'"
  shows "category_lines st' c = category_lines st c @ pending_lines st @ [l]"
    and "current_group st' = []"
    and "previous_line st' = Some l"
    and "lines st' = lines st"
    and "\<And>d. d \<noteq> c \<Longrightarrow> paragraph' st' d = paragraph' st d"
    and "paragraph' st c \<noteq> None"
    and "dom (paragraph' st') = dom (paragraph' st)"
  using assms
  by (auto simp: add_line_to_def category_lines_def pending_lines_def Let_def
           split: if_splits option.splits)

lemma add_lines_to_lines:
  assumes "add_lines_to c k vs st = Inr st'"
  shows "category_lines st' c =
           category_lines st c @ (if vs = [] then [] else pending_lines st)
             @ map (\<lambda>v. k @ v) vs"
  using assms
proof (induction vs arbitrary: st)
  case Nil
  then show ?case by simp
next
  case (Cons v vs)
  from Cons.prems obtain st1 where a: "add_line_to c (k @ v) st = Inr st1"
    and b: "add_lines_to c k vs st1 = Inr st'"
    by (auto split: sum.splits)
  from add_line_to_lines(2)[OF a] have "pending_lines st1 = []"
    by (simp add: pending_lines_def)
  with Cons.IH[OF b] add_line_to_lines(1)[OF a] show ?case by simp
qed

lemma add_lines_to_frame:
  assumes "add_lines_to c k vs st = Inr st'"
  shows "lines st' = lines st"
    and "\<And>d. d \<noteq> c \<Longrightarrow> paragraph' st' d = paragraph' st d"
    and "vs = [] \<Longrightarrow> st' = st"
    and "vs \<noteq> [] \<Longrightarrow> current_group st' = [] \<and> previous_line st' = Some (k @ last vs)"
  using assms
proof (induction vs arbitrary: st)
  case Nil
  { case 1 then show ?case by simp }
  { case 2 then show ?case by simp }
  { case 3 then show ?case by simp }
  { case 4 then show ?case by simp }
next
  case (Cons v vs)
  { case 1
    then obtain st1 where a: "add_line_to c (k @ v) st = Inr st1"
      and b: "add_lines_to c k vs st1 = Inr st'"
      by (auto split: sum.splits)
    from Cons.IH(1)[OF b] add_line_to_lines(4)[OF a] show ?case by simp }
  { case 2
    then obtain st1 where a: "add_line_to c (k @ v) st = Inr st1"
      and b: "add_lines_to c k vs st1 = Inr st'"
      by (auto split: sum.splits)
    from Cons.IH(2)[OF 2(1) b] add_line_to_lines(5)[OF a 2(1)] show ?case by simp }
  { case 3 then show ?case by simp }
  { case 4
    then obtain st1 where a: "add_line_to c (k @ v) st = Inr st1"
      and b: "add_lines_to c k vs st1 = Inr st'"
      by (auto split: sum.splits)
    show ?case
    proof (cases "vs = []")
      case True
      with b have "st' = st1" by simp
      with add_line_to_lines(2,3)[OF a] True show ?thesis by simp
    next
      case False
      with Cons.IH(4)[OF False b] show ?thesis by simp
    qed }
qed

text \<open>What a returning call of \<open>_add_line_value_to\<close> has done.\<close>

lemma add_line_value_to_Inr:
  assumes "add_line_value_to e category value key st = Inr st'"
  shows "\<exists>k vs.
           resolve_key category key = Inr k
         \<and> (if category \<in> set categories_with_package_tokens
              then fix_list_of_packages e value else Inr [value]) = Inr vs
         \<and> category_lines st' category =
             category_lines st category @ (if vs = [] then [] else pending_lines st)
               @ map (\<lambda>v. format_key k @ v) vs
         \<and> lines st' = lines st
         \<and> (\<forall>d. d \<noteq> category \<longrightarrow> paragraph' st' d = paragraph' st d)
         \<and> (vs = [] \<longrightarrow> st' = st)
         \<and> (vs \<noteq> [] \<longrightarrow> current_group st' = []
                \<and> previous_line st' = Some (format_key k @ last vs))"
proof -
  from assms obtain k where k: "resolve_key category key = Inr k"
    by (auto simp: add_line_value_to_def split: sum.splits)
  from assms k obtain vs where
    v: "(if category \<in> set categories_with_package_tokens
         then fix_list_of_packages e value else Inr [value]) = Inr vs"
    and a: "add_lines_to category (format_key k) vs st = Inr st'"
    by (auto simp: add_line_value_to_def split: sum.splits)
  from add_lines_to_lines[OF a] add_lines_to_frame[OF a] k v show ?thesis by blast
qed

section \<open>Dispatch\<close>

lemma add_blank: "complete_cleanup e b = [] \<Longrightarrow> add e b st = Inr st"
  by (simp add: add_def)

lemma add_all_append:
  "add_all e (xs @ ys) st = (case add_all e xs st of Inl err \<Rightarrow> Inl err | Inr st' \<Rightarrow> add_all e ys st')"
  by (induction xs arbitrary: st) (auto split: sum.splits)

lemma add_all_blanks: "\<forall>b \<in> set blanks. complete_cleanup e b = [] \<Longrightarrow> add_all e blanks st = Inr st"
  by (induction blanks) (auto simp: add_blank)

lemma add_comment_line:
  "comment_line e (complete_cleanup e raw) \<Longrightarrow>
   add e raw st = Inr (st\<lparr>current_group := current_group st @ [GStr (complete_cleanup e raw)],
                          previous_line := Some (complete_cleanup e raw)\<rparr>)"
  by (simp add: add_def comment_line_def unmatched_def Let_def)

lemma add_source_line:
  "source_line e (complete_cleanup e raw) \<Longrightarrow>
   add e raw st = add_source e (the (re_source (reg e) (complete_cleanup e raw))) st"
  by (simp add: add_def source_line_def unmatched_def Let_def)

lemma add_patch_line:
  "patch_line e (complete_cleanup e raw) \<Longrightarrow>
   add e raw st = add_patch e (complete_cleanup e raw) (the (re_patch (reg e) (complete_cleanup e raw))) st"
  by (simp add: add_def patch_line_def unmatched_def Let_def)

lemma add_prereq_line:
  "prereq_line e (complete_cleanup e raw) \<Longrightarrow>
   add e raw st = add_prereq e (the (re_prereq (reg e) (complete_cleanup e raw))) st"
  by (simp add: add_def prereq_line_def unmatched_def Let_def)

lemma add_requires_phase_line:
  "requires_phase_line e (complete_cleanup e raw) \<Longrightarrow>
   add e raw st = add_requires_phase e (the (re_requires_phase (reg e) (complete_cleanup e raw))) st"
  by (simp add: add_def requires_phase_line_def unmatched_def Let_def)

lemma add_provides_line:
  "provides_line e (complete_cleanup e raw) \<Longrightarrow>
   add e raw st = add_provides_obsoletes e ''re_provides'' ''Provides'' (complete_cleanup e raw) st"
  by (simp add: add_def provides_line_def unmatched_def Let_def)

lemma add_obsoletes_line:
  "obsoletes_line e (complete_cleanup e raw) \<Longrightarrow>
   add e raw st = add_provides_obsoletes e ''re_obsoletes'' ''Obsoletes'' (complete_cleanup e raw) st"
  by (simp add: add_def obsoletes_line_def unmatched_def Let_def)

lemma add_license_line:
  "license_line e (complete_cleanup e raw) \<Longrightarrow>
   add e raw st = add_license e (the (re_license (reg e) (complete_cleanup e raw))) st"
  by (simp add: add_def license_line_def unmatched_def Let_def)

section \<open>What each branch leaves alone\<close>

lemma add_group_frame:
  "add_group g st = Inr st' \<Longrightarrow>
     lines st' = lines st @ group_lines g \<and> paragraph' st' = paragraph' st
     \<and> current_group st' = current_group st"
  "add_groups gs st = Inr st' \<Longrightarrow>
     lines st' = lines st @ concat (map group_lines gs) \<and> paragraph' st' = paragraph' st
     \<and> current_group st' = current_group st"
proof (induction g st and gs st arbitrary: st' and st' rule: add_group_add_groups.induct)
  case (1 s st)
  then show ?case by (auto simp: section_add_def)
next
  case (2 gs st)
  then show ?case by simp
next
  case (3 t st)
  then show ?case by simp
next
  case (4 st)
  then show ?case by simp
next
  case (5 g gs st)
  from "5.prems" obtain st1 where a: "add_group g st = Inr st1" and b: "add_groups gs st1 = Inr st'"
    by (auto split: sum.splits)
  from "5.IH"(1)[OF a] "5.IH"(2)[OF a b] show ?case by simp
qed

lemma start_paragraph_requires_phase: "paragraph' (start_paragraph st) ''requires_phase'' = Some []"
  by (simp add: start_paragraph_def categories_order_def)

lemma end_paragraph_requires_phase:
  "end_paragraph e st = Inr st' \<Longrightarrow> paragraph' st' ''requires_phase'' = Some []"
  by (auto simp: end_paragraph_def start_paragraph_requires_phase split: sum.splits)

lemma add_line_value_to_other:
  "add_line_value_to e c v key st = Inr st' \<Longrightarrow> d \<noteq> c \<Longrightarrow> paragraph' st' d = paragraph' st d"
  using add_line_value_to_Inr by blast

lemma simple_matching_other:
  "simple_matching e cats line st = Inr st' \<Longrightarrow> d \<noteq> ''misc'' \<Longrightarrow> d \<notin> fst ` set cats \<Longrightarrow>
     paragraph' st' d = paragraph' st d"
proof (induction cats)
  case Nil
  then show ?case using add_line_to_lines(5)[of "''misc''" line st st' d] by simp
next
  case (Cons a cats)
  obtain c p where a: "a = (c, p)" by (cases a)
  show ?case
  proof (cases "p line")
    case None
    with Cons a show ?thesis by simp
  next
    case (Some m)
    with Cons.prems a obtain v where "add_line_value_to e c v None st = Inr st'"
      by (auto split: sum.splits)
    with Cons.prems a show ?thesis using add_line_value_to_other[of e c v None st st' d] by simp
  qed
qed

lemma add_source_keeps:
  assumes "add_source e m st = Inr st'" and "d \<noteq> ''source''"
  shows "paragraph' st' d = paragraph' st d"
proof -
  from assms(1) obtain v k where "add_line_value_to e ''source'' v k st = Inr st'"
    by (auto simp: add_source_def split: sum.splits)
  from add_line_value_to_other[OF this assms(2)] show ?thesis .
qed

lemma add_patch_keeps:
  assumes "add_patch e l m st = Inr st'" and "d \<noteq> ''patch''"
  shows "paragraph' st' d = paragraph' st d"
proof -
  define st1 where "st1 = (if lacks_comment e st
                 then st\<lparr>current_group := current_group st @ [GStr patch_missing_tag],
                         previous_line := Some l\<rparr>
                 else st)"
  have p: "paragraph' st1 = paragraph' st" by (simp add: st1_def)
  from assms(1) obtain v k where "add_line_value_to e ''patch'' v k st1 = Inr st'"
    unfolding add_patch_def Let_def st1_def[symmetric]
    by (auto split: sum.splits)
  from add_line_value_to_other[OF this assms(2)] p show ?thesis by simp
qed

lemma add_prereq_keeps:
  assumes "add_prereq e m st = Inr st'" and "d \<noteq> ''prereq''"
  shows "paragraph' st' d = paragraph' st d"
proof -
  from assms(1) obtain v k where
    "add_line_value_to e ''prereq'' v k
       (st\<lparr>current_group := current_group st @ [GStr prereq_fixme]\<rparr>) = Inr st'"
    by (auto simp: add_prereq_def Let_def split: sum.splits)
  from add_line_value_to_other[OF this assms(2)] show ?thesis by simp
qed

lemma add_requires_phase_keeps:
  assumes "add_requires_phase e m st = Inr st'" and "d \<noteq> ''prereq''"
  shows "paragraph' st' d = paragraph' st d"
proof -
  from assms(1) obtain v k where "add_line_value_to e ''prereq'' v k st = Inr st'"
    by (auto simp: add_requires_phase_def split: sum.splits)
  from add_line_value_to_other[OF this assms(2)] show ?thesis .
qed

lemma add_provides_obsoletes_keeps:
  assumes "add_provides_obsoletes e a key l st = Inr st'" and "d \<noteq> ''provides_obsoletes''"
  shows "paragraph' st' d = paragraph' st d"
proof -
  from assms(1) obtain v k where "add_line_value_to e ''provides_obsoletes'' v k st = Inr st'"
    by (auto simp: add_provides_obsoletes_def split: sum.splits option.splits)
  from add_line_value_to_other[OF this assms(2)] show ?thesis .
qed

lemma add_buildroot_keeps:
  assumes "add_buildroot e st = Inr st'" and "d \<noteq> ''buildroot''"
  shows "paragraph' st' d = paragraph' st d"
proof (cases "st' = st")
  case True
  then show ?thesis by simp
next
  case False
  with assms(1) obtain v k where "add_line_value_to e ''buildroot'' v k st = Inr st'"
    by (auto simp: add_buildroot_def split: option.splits if_splits)
  from add_line_value_to_other[OF this assms(2)] show ?thesis .
qed

lemma add_license_keeps:
  assumes "add_license e m st = Inr st'" and "d \<noteq> ''license''"
  shows "paragraph' st' d = paragraph' st d"
proof -
  from assms(1) obtain v k where "add_line_value_to e ''license'' v k st = Inr st'"
    by (auto simp: add_license_def split: sum.splits)
  from add_line_value_to_other[OF this assms(2)] show ?thesis .
qed

lemma add_summary_localized_keeps:
  assumes "add_summary_localized e m st = Inr st'" and "d \<noteq> ''summary_localized''"
  shows "paragraph' st' d = paragraph' st d"
proof -
  from assms(1) obtain v k where "add_line_value_to e ''summary_localized'' v k st = Inr st'"
    by (auto simp: add_summary_localized_def split: sum.splits)
  from add_line_value_to_other[OF this assms(2)] show ?thesis .
qed

lemma add_other_keeps:
  assumes "add_other e l st = Inr st'" and "d \<noteq> ''misc''"
    and "d \<notin> fst ` set (category_to_re (reg e))"
  shows "paragraph' st' d = paragraph' st d"
proof (cases "st' = st")
  case True
  then show ?thesis by simp
next
  case False
  with assms(1) have "simple_matching e (category_to_re (reg e)) l st = Inr st'"
    by (auto simp: add_other_def split: if_splits)
  from simple_matching_other[OF this assms(2,3)] show ?thesis .
qed

lemma add_requires_phase_slot:
  assumes "add e raw st = Inr st'" and "paragraph' st ''requires_phase'' = Some []"
  shows "paragraph' st' ''requires_phase'' = Some []"
proof -
  let ?rp = "''requires_phase''"
  have rel: "\<And>v k. add_line_value_to e ''release'' v k st = Inr st' \<Longrightarrow> ?thesis"
    using add_line_value_to_other[of e "''release''" _ _ st st' ?rp] assms(2) by simp
  have oth: "add_other e (complete_cleanup e raw) st = Inr st' \<Longrightarrow> ?thesis"
    using add_other_keeps[of e _ st st' ?rp] assms(2) by (simp add: category_to_re_def)
  from assms(1) show ?thesis
    unfolding add_def Let_def
    apply (simp split: if_splits sum.splits)
    subgoal using assms(2) by simp
    subgoal by (auto dest: end_paragraph_requires_phase)
    subgoal using assms(2) by auto
    subgoal using assms(2) add_source_keeps[of e _ st st' ?rp] by simp
    subgoal using assms(2) add_patch_keeps[of e _ _ st st' ?rp] by simp
    subgoal using assms(2) add_prereq_keeps[of e _ st st' ?rp] by simp
    subgoal using assms(2) add_requires_phase_keeps[of e _ st st' ?rp] by simp
    subgoal using assms(2) add_provides_obsoletes_keeps[of e _ _ _ st st' ?rp] by simp
    subgoal using assms(2) add_provides_obsoletes_keeps[of e _ _ _ st st' ?rp] by simp
    subgoal using assms(2) add_buildroot_keeps[of e st st' ?rp] by simp
    subgoal using assms(2) add_license_keeps[of e _ st st' ?rp] by simp
    subgoal using rel by simp
    subgoal using assms(2) add_summary_localized_keeps[of e _ st st' ?rp] by simp
    subgoal using oth by simp
    done
qed

lemma init_requires_phase: "paragraph' init_state ''requires_phase'' = Some []"
  by (simp add: init_state_def start_paragraph_requires_phase)

lemma add_all_requires_phase_slot:
  "add_all e ls st = Inr st' \<Longrightarrow> paragraph' st ''requires_phase'' = Some [] \<Longrightarrow>
   paragraph' st' ''requires_phase'' = Some []"
proof (induction ls arbitrary: st)
  case Nil
  then show ?case by simp
next
  case (Cons l ls)
  from Cons.prems(1) obtain st1 where a: "add e l st = Inr st1" and b: "add_all e ls st1 = Inr st'"
    by (auto split: sum.splits)
  from Cons.IH[OF b add_requires_phase_slot[OF a Cons.prems(2)]] show ?case .
qed

lemma end_category_empty_slot:
  "paragraph' s ''requires_phase'' = Some [] \<Longrightarrow> end_category e ''requires_phase'' s = Inr s"
  by (simp add: end_category_def categories_with_sorted_package_tokens_def
      categories_with_sorted_keyword_tokens_def)

section \<open>Flattening groups\<close>

lemma add_group_scan:
  "raised (add_group g st) =
     map_option (\<lambda>t. RpmException (''Unknown type of group in preamble: '' @ t)) (snd (scan_group g))
   \<and> lines (reached (add_group g st)) = lines st @ fst (scan_group g)"
  "raised (add_groups gs st) =
     map_option (\<lambda>t. RpmException (''Unknown type of group in preamble: '' @ t)) (snd (scan_groups gs))
   \<and> lines (reached (add_groups gs st)) = lines st @ fst (scan_groups gs)"
proof (induction g st and gs st rule: add_group_add_groups.induct)
  case (1 s st)
  show ?case by (simp add: raised_def reached_def section_add_def)
next
  case (2 gs st)
  then show ?case by simp
next
  case (3 t st)
  show ?case by (simp add: raised_def reached_def)
next
  case (4 st)
  show ?case by (simp add: raised_def reached_def)
next
  case (5 g gs st)
  show ?case
  proof (cases "add_group g st")
    case (Inl a)
    obtain err st1 where a: "a = (err, st1)" by (cases a)
    from "5.IH"(1) Inl a obtain t where t: "snd (scan_group g) = Some t"
      and e: "err = RpmException (''Unknown type of group in preamble: '' @ t)"
      and l: "lines st1 = lines st @ fst (scan_group g)"
      by (cases "snd (scan_group g)") (auto simp: raised_def reached_def)
    from t have "scan_groups (g # gs) = (fst (scan_group g), Some t)"
      by (cases "scan_group g") simp
    with Inl a e l show ?thesis
      by (simp add: raised_def reached_def)
  next
    case (Inr st1)
    with "5.IH"(1) have n: "snd (scan_group g) = None" and l: "lines st1 = lines st @ fst (scan_group g)"
      by (auto simp: raised_def reached_def)
    from "5.IH"(2)[OF Inr] n l Inr show ?thesis
      by (cases "scan_group g"; cases "scan_groups gs") (auto simp: raised_def reached_def)
  qed
qed

lemma unknown_category_raises:
  assumes "key = None \<or> key = Some []" and "category_to_key category = None"
  shows "add_line_value_to e category value key st
           = Inl (RpmException (''Unhandled category in preamble: '' @ category), st)"
  using assms by (auto simp: add_line_value_to_def resolve_key_def)

section \<open>Returning calls and committed lines\<close>

lemma add_line_to_returns:
  "paragraph' st c \<noteq> None \<Longrightarrow> \<exists>st'. add_line_to c l st = Inr st' \<and> paragraph' st' c \<noteq> None"
  by (auto simp: add_line_to_def Let_def)

lemma add_lines_to_returns:
  "paragraph' st c \<noteq> None \<Longrightarrow> \<exists>st'. add_lines_to c k vs st = Inr st'"
proof (induction vs arbitrary: st)
  case Nil
  then show ?case by simp
next
  case (Cons v vs)
  from add_line_to_returns[OF Cons.prems] obtain st1 where
    "add_line_to c (k @ v) st = Inr st1" "paragraph' st1 c \<noteq> None" by blast
  with Cons.IH[of st1] show ?case by simp
qed

lemma add_line_value_to_returns:
  assumes "resolve_key c key = Inr k"
    and "(if c \<in> set categories_with_package_tokens
          then fix_list_of_packages e v else Inr [v]) = Inr vs"
    and "paragraph' st c \<noteq> None"
  shows "\<exists>st'. add_line_value_to e c v key st = Inr st'"
  using assms add_lines_to_returns[OF assms(3), of "format_key k" vs]
  by (simp add: add_line_value_to_def)

lemma missing_attribute_raises:
  "self_attr e attr = None \<Longrightarrow>
   add_provides_obsoletes e attr key l st = Inl (AttributeError attr, st)"
  by (simp add: add_provides_obsoletes_def)

lemma tokens_example:
  "filter (\<lambda>a. a \<noteq> []) (re_split_license [] 0 ''FooORlater and (BarORsim)'')
     = [''FooORlater'', '' and '', ''('', ''BarORsim'', '')'']"
  by code_simp

lemma suffix_examples:
  "py_replace ''ORsim'' ''or similar'' (py_replace ''ORlater'' ''or later'' ''FooORlater'') = ''Fooor later''"
  "py_replace ''ORsim'' ''or similar'' (py_replace ''ORlater'' ''or later'' ''and'') = ''and''"
  "py_replace ''ORsim'' ''or similar'' (py_replace ''ORlater'' ''or later'' ''('') = ''(''"
  "py_replace ''ORsim'' ''or similar'' (py_replace ''ORlater'' ''or later'' ''BarORsim'') = ''Baror similar''"
  "py_replace ''ORsim'' ''or similar'' (py_replace ''ORlater'' ''or later'' '')'') = '')''"
  by code_simp+

lemma join_example:
  "py_replace '' )'' '')'' (py_replace ''( '' ''(''
     (py_join '' '' [''Fooor later'', ''and'', ''('', ''Baror similar'', '')'']))
   = ''Fooor later and (Baror similar)''"
  by code_simp

lemma fix_license_example:
  assumes "\<forall>t \<in> set [''FooORlater'', ''('', ''BarORsim'', '')'']. strip_useless_spaces e t = t"
    and "strip_useless_spaces e '' and '' = ''and''"
    and "\<forall>t \<in> set [''Fooor later'', ''and'', ''('', ''Baror similar'', '')''].
           license_conversions e t = None"
  shows "fix_license e ''FooORlater and (BarORsim)'' = ''Fooor later and (Baror similar)''"
proof -
  from assms have
    "map (fix_license_token e) [''FooORlater'', '' and '', ''('', ''BarORsim'', '')'']
       = [''Fooor later'', ''and'', ''('', ''Baror similar'', '')'']"
    by (simp add: fix_license_token_def Let_def suffix_examples)
  then show ?thesis
    by (simp only: fix_license_def Let_def tokens_example join_example)
qed

lemma py_int_zero: "py_int ''0'' = Inr 0"
  by code_simp

lemma not_package_tokens:
  "''source'' \<notin> set categories_with_package_tokens"
  "''patch'' \<notin> set categories_with_package_tokens"
  "''license'' \<notin> set categories_with_package_tokens"
  by (simp_all add: categories_with_package_tokens_def categories_with_sorted_package_tokens_def)

lemma prereq_package_tokens: "''prereq'' \<in> set categories_with_package_tokens"
  by (simp add: categories_with_package_tokens_def categories_with_sorted_package_tokens_def)

lemma resolve_explicit_key: "k \<noteq> [] \<Longrightarrow> resolve_key c (Some k) = Inr k"
  by (simp add: resolve_key_def)

lemma source_line_committed:
  assumes "source_line e (complete_cleanup e raw)" and "add e raw st = Inr st'"
  shows "\<exists>num val.
           mgroup (the (re_source (reg e) (complete_cleanup e raw))) 1 = Inr num
         \<and> mgroup (the (re_source (reg e) (complete_cleanup e raw))) 2 = Inr val
         \<and> category_lines st' ''source'' =
             category_lines st ''source'' @ pending_lines st @ [format_key (''Source'' @ num) @ val]"
proof -
  let ?m = "the (re_source (reg e) (complete_cleanup e raw))"
  from assms have "add_source e ?m st = Inr st'" by (simp add: add_source_line)
  then obtain val num where v: "mgroup ?m 2 = Inr val" and n: "mgroup ?m 1 = Inr num"
    and c: "add_line_value_to e ''source'' val (Some (''Source'' @ num)) st = Inr st'"
    by (auto simp: add_source_def split: sum.splits)
  from add_line_value_to_Inr[OF c] resolve_explicit_key[of "''Source'' @ num" "''source''"]
  have "category_lines st' ''source'' =
          category_lines st ''source'' @ pending_lines st @ [format_key (''Source'' @ num) @ val]"
    by (auto simp: not_package_tokens)
  with v n show ?thesis by blast
qed

lemma patch_line_committed:
  assumes "patch_line e (complete_cleanup e raw)" and "add e raw st = Inr st'"
  shows "\<exists>pre num val.
           mgroup (the (re_patch (reg e) (complete_cleanup e raw))) 1 = Inr pre
         \<and> mgroup (the (re_patch (reg e) (complete_cleanup e raw))) 2 = Inr num
         \<and> mgroup (the (re_patch (reg e) (complete_cleanup e raw))) 3 = Inr val
         \<and> category_lines st' ''patch'' =
             category_lines st ''patch'' @ pending_lines st
               @ (if lacks_comment e st then [patch_missing_tag] else [])
               @ [format_key (pre @ ''Patch'' @ (if num = [] then ''0'' else num)) @ val]"
proof -
  let ?l = "complete_cleanup e raw"
  let ?m = "the (re_patch (reg e) ?l)"
  define st1 where "st1 = (if lacks_comment e st
                 then st\<lparr>current_group := current_group st @ [GStr patch_missing_tag],
                         previous_line := Some ?l\<rparr>
                 else st)"
  have s1: "category_lines st1 ''patch'' = category_lines st ''patch''"
    "pending_lines st1 = pending_lines st @ (if lacks_comment e st then [patch_missing_tag] else [])"
    by (simp_all add: st1_def category_lines_def pending_lines_def)
  from assms have "add_patch e ?l ?m st = Inr st'" by (simp add: add_patch_line)
  then obtain pre num val where p: "mgroup ?m 1 = Inr pre" and n: "mgroup ?m 2 = Inr num"
    and v: "mgroup ?m 3 = Inr val"
    and c: "add_line_value_to e ''patch'' val
              (Some (pre @ ''Patch'' @ (if num = [] then ''0'' else []) @ num)) st1 = Inr st'"
    unfolding add_patch_def Let_def st1_def[symmetric]
    by (auto split: sum.splits)
  have z: "(if num = [] then ''0'' else []) @ num = (if num = [] then ''0'' else num)"
    by simp
  from add_line_value_to_Inr[OF c]
       resolve_explicit_key[of "pre @ ''Patch'' @ (if num = [] then ''0'' else []) @ num" "''patch''"]
  have "category_lines st' ''patch'' =
          category_lines st1 ''patch'' @ pending_lines st1
            @ [format_key (pre @ ''Patch'' @ (if num = [] then ''0'' else num)) @ val]"
    by (auto simp: not_package_tokens)
  with p n v s1 show ?thesis by auto
qed

lemma source_sort_key_absent:
  assumes "re_patch (reg e) k = None" and "re_source (reg e) k = Some m"
    and "mgroup m 1 = Inr []"
  shows "sort_helper_key e (GStr k) = Inr (KInt 0)"
  using assms by (simp add: sort_helper_key_def py_int_zero)

lemma prereq_line_committed:
  assumes "prereq_line e (complete_cleanup e raw)" and "add e raw st = Inr st'"
  shows "\<exists>val vs.
           mgroup (the (re_prereq (reg e) (complete_cleanup e raw))) 1 = Inr val
         \<and> fix_list_of_packages e val = Inr vs
         \<and> category_lines st' ''prereq'' =
             category_lines st ''prereq''
               @ (if vs = [] then [] else pending_lines st @ [prereq_fixme])
               @ map (\<lambda>v. format_key ''PreReq'' @ v) vs
         \<and> (vs = [] \<longrightarrow> pending_lines st' = pending_lines st @ [prereq_fixme])"
proof -
  let ?m = "the (re_prereq (reg e) (complete_cleanup e raw))"
  define st1 where "st1 = st\<lparr>current_group := current_group st @ [GStr prereq_fixme]\<rparr>"
  have s1: "category_lines st1 ''prereq'' = category_lines st ''prereq''"
    "pending_lines st1 = pending_lines st @ [prereq_fixme]"
    by (simp_all add: st1_def category_lines_def pending_lines_def)
  from assms have "add_prereq e ?m st = Inr st'" by (simp add: add_prereq_line)
  then obtain val where v: "mgroup ?m 1 = Inr val"
    and c: "add_line_value_to e ''prereq'' val None st1 = Inr st'"
    unfolding add_prereq_def Let_def st1_def[symmetric]
    by (auto split: sum.splits)
  have k: "resolve_key ''prereq'' None = Inr ''PreReq''"
    by (simp add: resolve_key_def category_to_key_def)
  from add_line_value_to_Inr[OF c] k prereq_package_tokens obtain vs where
    f: "fix_list_of_packages e val = Inr vs"
    and l: "category_lines st' ''prereq'' =
              category_lines st1 ''prereq'' @ (if vs = [] then [] else pending_lines st1)
                @ map (\<lambda>v. format_key ''PreReq'' @ v) vs"
    and n: "vs = [] \<longrightarrow> st' = st1"
    by auto
  from v f l n s1 show ?thesis by auto
qed

lemma requires_phase_line_committed:
  assumes "requires_phase_line e (complete_cleanup e raw)" and "add e raw st = Inr st'"
  shows "\<exists>phase val vs.
           mgroup (the (re_requires_phase (reg e) (complete_cleanup e raw))) 1 = Inr phase
         \<and> mgroup (the (re_requires_phase (reg e) (complete_cleanup e raw))) 2 = Inr val
         \<and> fix_list_of_packages e val = Inr vs
         \<and> category_lines st' ''prereq'' =
             category_lines st ''prereq'' @ (if vs = [] then [] else pending_lines st)
               @ map (\<lambda>v. format_key (''Requires'' @ phase) @ v) vs
         \<and> (vs = [] \<longrightarrow> st' = st)"
proof -
  let ?m = "the (re_requires_phase (reg e) (complete_cleanup e raw))"
  from assms have "add_requires_phase e ?m st = Inr st'" by (simp add: add_requires_phase_line)
  then obtain val phase where v: "mgroup ?m 2 = Inr val" and p: "mgroup ?m 1 = Inr phase"
    and c: "add_line_value_to e ''prereq'' val (Some (''Requires'' @ phase)) st = Inr st'"
    by (auto simp: add_requires_phase_def split: sum.splits)
  from add_line_value_to_Inr[OF c] resolve_explicit_key[of "''Requires'' @ phase" "''prereq''"]
       prereq_package_tokens
  obtain vs where "fix_list_of_packages e val = Inr vs"
    "category_lines st' ''prereq'' =
       category_lines st ''prereq'' @ (if vs = [] then [] else pending_lines st)
         @ map (\<lambda>v. format_key (''Requires'' @ phase) @ v) vs"
    "vs = [] \<longrightarrow> st' = st"
    by auto
  with v p show ?thesis by blast
qed

section \<open>Closing a paragraph\<close>

lemma ranked_snd:
  "map snd (concat (map (\<lambda>(r, i). map (Pair r) (f i)) (enumerate n cs))) = concat (map f cs)"
  by (induction cs arbitrary: n) (simp_all add: comp_def)

lemma ranked_fst_ge:
  "x \<in> set (concat (map (\<lambda>(r, i). map (Pair r) (f i)) (enumerate n cs))) \<Longrightarrow> n \<le> fst x"
  by (induction cs arbitrary: n) (auto, fastforce)

lemma sorted_map_const: "sorted (map (\<lambda>x. c) xs)"
  by (induction xs) auto

lemma ranked_fst_sorted:
  "sorted (map fst (concat (map (\<lambda>(r, i). map (Pair r) (f i)) (enumerate n cs))))"
proof (induction cs arbitrary: n)
  case Nil
  then show ?case by simp
next
  case (Cons c cs)
  let ?rest = "concat (map (\<lambda>(r, i). map (Pair r) (f i)) (enumerate (Suc n) cs))"
  have a: "sorted (map fst (map (Pair n) (f c)))"
    by (simp add: comp_def sorted_map_const)
  have b: "\<forall>y \<in> set ?rest. n \<le> fst y"
  proof
    fix y assume "y \<in> set ?rest"
    from ranked_fst_ge[OF this] show "n \<le> fst y" by simp
  qed
  have "map fst (concat (map (\<lambda>(r, i). map (Pair r) (f i)) (enumerate n (c # cs))))
          = map fst (map (Pair n) (f c)) @ map fst ?rest"
    by simp
  moreover have "sorted (map fst (map (Pair n) (f c)) @ map fst ?rest)"
    unfolding sorted_append using a b Cons[of "Suc n"] by (auto simp: comp_def)
  ultimately show ?case by simp
qed

lemma mapE_Inr: "mapE f xs = Inr ys \<Longrightarrow> map f xs = map Inr ys"
  by (induction xs arbitrary: ys) (auto split: sum.splits)

lemma sort_groups_Inr:
  assumes "sort_groups e gs = Inr gs'"
  shows "\<exists>ks. map (sort_helper_key e) gs = map Inr ks
             \<and> gs' = map snd (sort_key fst (zip ks gs))"
  using assms by (auto simp: sort_groups_def split: sum.splits dest: mapE_Inr)

lemma sorted_disjoint:
  "i \<in> set categories_with_sorted_package_tokens \<Longrightarrow> i \<notin> set categories_with_sorted_keyword_tokens"
  by (auto simp: categories_with_sorted_package_tokens_def categories_with_sorted_keyword_tokens_def)

lemma sort_category_Inr:
  assumes "sort_category e i st = Inr st'"
  shows "\<exists>gs gs'. paragraph' st i = Some gs \<and> sort_groups e gs = Inr gs'
           \<and> st' = st\<lparr>paragraph' := (paragraph' st)(i \<mapsto> gs')\<rparr>"
  using assms by (auto simp: sort_category_def split: option.splits sum.splits)

lemma end_category_Inr:
  assumes "end_category e i st = Inr st'"
  shows "\<exists>gs. paragraph' st i = Some gs
           \<and> lines st' = lines st @ emitted_lines e st i
           \<and> current_group st' = current_group st
           \<and> (\<forall>j. j \<noteq> i \<longrightarrow> paragraph' st' j = paragraph' st j)
           \<and> (sortable i \<longrightarrow> (\<exists>gs'. sort_groups e gs = Inr gs'))"
proof (cases "sortable i")
  case False
  then have n: "i \<notin> set categories_with_sorted_package_tokens"
    "i \<notin> set categories_with_sorted_keyword_tokens"
    by (simp_all add: sortable_def)
  with assms obtain gs where g: "paragraph' st i = Some gs" and a: "add_groups gs st = Inr st'"
    by (auto simp: end_category_def split: option.splits)
  from add_group_frame(2)[OF a] g False show ?thesis
    by (simp add: emitted_lines_def emission_order_def slot_def)
next
  case True
  have "\<exists>st1. sort_category e i st = Inr st1
           \<and> (case paragraph' st1 i of None \<Rightarrow> Inl (KeyError i, st1) | Some gs \<Rightarrow> add_groups gs st1) = Inr st'"
  proof (cases "i \<in> set categories_with_sorted_package_tokens")
    case p: True
    with sorted_disjoint[OF p] assms show ?thesis
      by (auto simp: end_category_def split: sum.splits)
  next
    case p: False
    with True have "i \<in> set categories_with_sorted_keyword_tokens" by (simp add: sortable_def)
    with p assms show ?thesis
      by (auto simp: end_category_def split: sum.splits)
  qed
  then obtain st1 where s: "sort_category e i st = Inr st1"
    and r: "(case paragraph' st1 i of None \<Rightarrow> Inl (KeyError i, st1) | Some gs \<Rightarrow> add_groups gs st1) = Inr st'"
    by blast
  from sort_category_Inr[OF s] obtain gs gs' where g: "paragraph' st i = Some gs"
    and o: "sort_groups e gs = Inr gs'"
    and st1: "st1 = st\<lparr>paragraph' := (paragraph' st)(i \<mapsto> gs')\<rparr>"
    by blast
  from r st1 have a: "add_groups gs' st1 = Inr st'" by simp
  from add_group_frame(2)[OF a] st1 g o True show ?thesis
    by (simp add: emitted_lines_def emission_order_def slot_def)
qed

lemma emitted_lines_cong:
  "paragraph' st1 i = paragraph' st i \<Longrightarrow> emitted_lines e st1 i = emitted_lines e st i"
  by (simp add: emitted_lines_def slot_def)

lemma end_categories_Inr:
  assumes "end_categories e cs st = Inr st'" and "distinct cs"
  shows "lines st' = lines st @ concat (map (emitted_lines e st) cs)
       \<and> current_group st' = current_group st
       \<and> (\<forall>i \<in> set cs. \<exists>gs. paragraph' st i = Some gs
              \<and> (sortable i \<longrightarrow> (\<exists>gs'. sort_groups e gs = Inr gs')))"
  using assms
proof (induction cs arbitrary: st)
  case Nil
  then show ?case by simp
next
  case (Cons i cs)
  from Cons.prems(1) obtain st1 where a: "end_category e i st = Inr st1"
    and b: "end_categories e cs st1 = Inr st'"
    by (auto split: sum.splits)
  from Cons.prems(2) have d: "distinct cs" and ni: "i \<notin> set cs" by simp_all
  from end_category_Inr[OF a] obtain gs where g: "paragraph' st i = Some gs"
    and l: "lines st1 = lines st @ emitted_lines e st i"
    and c: "current_group st1 = current_group st"
    and o: "\<forall>j. j \<noteq> i \<longrightarrow> paragraph' st1 j = paragraph' st j"
    and s: "sortable i \<longrightarrow> (\<exists>gs'. sort_groups e gs = Inr gs')"
    by blast
  from o ni have same: "\<forall>j \<in> set cs. paragraph' st1 j = paragraph' st j" by auto
  then have m: "map (emitted_lines e st1) cs = map (emitted_lines e st) cs"
    by (auto intro: emitted_lines_cong)
  from Cons.IH[OF b d] l c m same g s show ?case by auto
qed

lemma distinct_categories_order: "distinct categories_order"
  by (simp add: categories_order_def)

lemma sortable_in_order: "sortable i \<Longrightarrow> i \<in> set categories_order"
  by (auto simp: sortable_def categories_order_def categories_with_sorted_package_tokens_def
      categories_with_sorted_keyword_tokens_def)

lemma end_paragraph_Inr:
  assumes "end_paragraph e st = Inr st'"
  shows "lines st' = lines st @ concat (map (emitted_lines e st) categories_order) @ pending_lines st
       \<and> (\<forall>i \<in> set categories_order. \<exists>gs. paragraph' st i = Some gs
              \<and> (sortable i \<longrightarrow> (\<exists>gs'. sort_groups e gs = Inr gs')))"
proof -
  from assms obtain st1 st2 where a: "end_categories e categories_order st = Inr st1"
    and b: "(if current_group st1 \<noteq> [] then add_group (GList (current_group st1)) st1 else Inr st1) = Inr st2"
    and c: "st' = start_paragraph st2"
    by (auto simp: end_paragraph_def split: sum.splits)
  from end_categories_Inr[OF a distinct_categories_order]
  have l: "lines st1 = lines st @ concat (map (emitted_lines e st) categories_order)"
    and g: "current_group st1 = current_group st"
    and s: "\<forall>i \<in> set categories_order. \<exists>gs. paragraph' st i = Some gs
              \<and> (sortable i \<longrightarrow> (\<exists>gs'. sort_groups e gs = Inr gs'))"
    by blast+
  have "lines st2 = lines st1 @ pending_lines st"
  proof (cases "current_group st1 = []")
    case True
    with b g show ?thesis by (simp add: pending_lines_def)
  next
    case False
    with b have "add_group (GList (current_group st1)) st1 = Inr st2" by simp
    from add_group_frame(1)[OF this] g show ?thesis by (simp add: pending_lines_def)
  qed
  with l c s show ?thesis by (simp add: start_paragraph_def)
qed

lemma not_isl_reached: "\<not> isl r \<Longrightarrow> r = Inr (reached r)"
  by (cases r) (simp_all add: reached_def)

section \<open>A comment, blank lines, a patch line\<close>

lemma add_patch_returns:
  assumes "3 \<le> length m" and "paragraph' st ''patch'' \<noteq> None"
  shows "\<exists>st'. add_patch e l m st = Inr st'"
proof -
  define st1 where "st1 = (if lacks_comment e st
                 then st\<lparr>current_group := current_group st @ [GStr patch_missing_tag],
                         previous_line := Some l\<rparr>
                 else st)"
  have p: "paragraph' st1 ''patch'' \<noteq> None" using assms(2) by (simp add: st1_def)
  from assms(1) obtain pre num val where g: "mgroup m 1 = Inr pre" "mgroup m 2 = Inr num"
    "mgroup m 3 = Inr val"
    by (simp add: mgroup_def)
  let ?k = "pre @ ''Patch'' @ (if num = [] then ''0'' else []) @ num"
  have k: "resolve_key ''patch'' (Some ?k) = Inr ?k"
    by (rule resolve_explicit_key) simp
  from add_line_value_to_returns[OF k _ p, of e val "[val]"] not_package_tokens(2)
  obtain st' where "add_line_value_to e ''patch'' val (Some ?k) st1 = Inr st'"
    by auto
  with g show ?thesis
    unfolding add_patch_def Let_def st1_def[symmetric] by simp
qed

lemma comment_then_patch:
  assumes blanks: "\<forall>b \<in> set blanks. complete_cleanup e b = []"
    and cl: "comment_line e (complete_cleanup e c)"
    and pl: "patch_line e (complete_cleanup e p)"
  shows "add_all e (c # blanks @ [p]) st
           = add e p (st\<lparr>current_group := current_group st @ [GStr (complete_cleanup e c)],
                         previous_line := Some (complete_cleanup e c)\<rparr>)"
    and "\<not> lacks_comment e
             (st\<lparr>current_group := current_group st @ [GStr (complete_cleanup e c)],
                 previous_line := Some (complete_cleanup e c)\<rparr>)"
proof -
  let ?stc = "st\<lparr>current_group := current_group st @ [GStr (complete_cleanup e c)],
                 previous_line := Some (complete_cleanup e c)\<rparr>"
  from cl have c: "add e c st = Inr ?stc"
    by (simp add: add_comment_line)
  then show "add_all e (c # blanks @ [p]) st = add e p ?stc"
    using blanks by (simp add: add_all_append add_all_blanks split: sum.splits)
  from cl show "\<not> lacks_comment e ?stc"
    by (simp add: lacks_comment_def comment_line_def)
qed

lemma comment_then_patch_committed:
  assumes blanks: "\<forall>b \<in> set blanks. complete_cleanup e b = []"
    and cl: "comment_line e (complete_cleanup e c)"
    and pl: "patch_line e (complete_cleanup e p)"
    and r: "add_all e (c # blanks @ [p]) st = Inr st'"
  shows "\<exists>pre num val.
           mgroup (the (re_patch (reg e) (complete_cleanup e p))) 1 = Inr pre
         \<and> mgroup (the (re_patch (reg e) (complete_cleanup e p))) 2 = Inr num
         \<and> mgroup (the (re_patch (reg e) (complete_cleanup e p))) 3 = Inr val
         \<and> category_lines st' ''patch'' =
             category_lines st ''patch'' @ pending_lines st
               @ [complete_cleanup e c,
                  format_key (pre @ ''Patch'' @ (if num = [] then ''0'' else num)) @ val]
         \<and> pending_lines st' = []"
proof -
  let ?stc = "st\<lparr>current_group := current_group st @ [GStr (complete_cleanup e c)],
                 previous_line := Some (complete_cleanup e c)\<rparr>"
  from comment_then_patch[OF blanks cl pl, of st] r
  have a: "add e p ?stc = Inr st'" and n: "\<not> lacks_comment e ?stc" by simp_all
  have s: "category_lines ?stc ''patch'' = category_lines st ''patch''"
    "pending_lines ?stc = pending_lines st @ [complete_cleanup e c]"
    by (simp_all add: category_lines_def pending_lines_def)
  from a add_patch_line[OF pl, of ?stc] have ap:
    "add_patch e (complete_cleanup e p) (the (re_patch (reg e) (complete_cleanup e p))) ?stc = Inr st'"
    by simp
  then obtain v k where "add_line_value_to e ''patch'' v k ?stc = Inr st'"
    using n by (auto simp: add_patch_def Let_def split: sum.splits)
  from add_line_value_to_Inr[OF this] not_package_tokens(2)
  have "current_group st' = []" by auto
  then have e: "pending_lines st' = []" by (simp add: pending_lines_def)
  from patch_line_committed[OF pl a] n s e show ?thesis by auto
qed

section \<open>The claims\<close>

text \<open>
  Claim C8. Every line that \<open>_add_line_value_to\<close> commits is the padded key followed by
  a value: when the call returns, the category has gained the pending attachment lines
  (if there is at least one value) and then, for each value in order, the line
  \<open>format_key k @ value\<close>, where \<open>k\<close> is the explicit key if one is given and the
  category's key otherwise, for every category. The padded key is \<open>k\<close>, a colon, and then
  spaces: as many as bring it to 16 characters (the length of \<open>BuildRequires:\<close> and two
  spaces) when key and colon are shorter than that, and exactly one otherwise.
\<close>

theorem add_line_value_to_pads_key:
  assumes "add_line_value_to e category value key st = Inr st'"
  shows "\<exists>k values.
           resolve_key category key = Inr k
         \<and> (\<forall>x. key = Some x \<and> x \<noteq> [] \<longrightarrow> k = x)
         \<and> (if category \<in> set categories_with_package_tokens
              then fix_list_of_packages e value else Inr [value]) = Inr values
         \<and> category_lines st' category =
             category_lines st category @ (if values = [] then [] else pending_lines st)
               @ map (\<lambda>v. format_key k @ v) values
         \<and> format_key k =
             k @ '':'' @ replicate (if length (k @ '':'') < 16
                                    then 16 - length (k @ '':'') else 1) (CHR '' '')"
proof -
  from add_line_value_to_Inr[OF assms] obtain k vs where
    k: "resolve_key category key = Inr k"
    and v: "(if category \<in> set categories_with_package_tokens
             then fix_list_of_packages e value else Inr [value]) = Inr vs"
    and l: "category_lines st' category =
              category_lines st category @ (if vs = [] then [] else pending_lines st)
                @ map (\<lambda>v. format_key k @ v) vs"
    by blast
  from k have x: "\<forall>x. key = Some x \<and> x \<noteq> [] \<longrightarrow> k = x"
    by (auto simp: resolve_key_def)
  from k x v l format_key_eq[of k] show ?thesis by blast
qed

theorem add_line_value_to_pads_key_witness:
  "\<exists>st'. add_line_value_to example_env ''source'' ''x.tar'' (Some ''Source1'') init_state = Inr st'
     \<and> category_lines st' ''source'' = [''Source1:        x.tar'']"
proof -
  have "\<exists>st'. add_line_value_to example_env ''source'' ''x.tar'' (Some ''Source1'') init_state
          = Inr st'"
    by (simp add: add_line_value_to_def resolve_key_def
        categories_with_package_tokens_def categories_with_sorted_package_tokens_def
        add_line_to_def init_state_def start_paragraph_def categories_order_def)
  then obtain st' where
    h: "add_line_value_to example_env ''source'' ''x.tar'' (Some ''Source1'') init_state = Inr st'" ..
  have c: "category_lines init_state ''source'' = []" "pending_lines init_state = []"
    by (simp_all add: category_lines_def pending_lines_def init_state_def
        start_paragraph_def categories_order_def)
  have n: "''source'' \<notin> set categories_with_package_tokens"
    by (simp add: categories_with_package_tokens_def categories_with_sorted_package_tokens_def)
  from add_line_value_to_pads_key[OF h] c n
  have "category_lines st' ''source'' = [''Source1:        x.tar'']"
    by (auto simp: eval_nat_numeral)
  with h show ?thesis by blast
qed

text \<open>
  Claim C10. A line that is empty after cleanup leaves the whole state as it is, so the
  pending attachment buffer and the previous-line record are untouched: removing such
  lines from anywhere in the input changes nothing. In particular a comment followed by
  blank lines and then a patch line is processed as the comment followed directly by
  the patch line: the previous line is still the comment when the patch line arrives, so
  the missing-comment warning is not attached. What the patch category gains is the
  lines that were pending before, the comment, and directly after it the patch line,
  nothing else, and nothing is left pending. The run returns whenever the patch pattern
  captures its three groups and the paragraph has a patch slot.
\<close>

theorem blank_lines_are_transparent:
  assumes "\<forall>b \<in> set blanks. complete_cleanup e b = []"
  shows "(\<forall>b \<in> set blanks. \<forall>s. add e b s = Inr s)
       \<and> add_all e (before @ blanks @ after) st = add_all e (before @ after) st
       \<and> (comment_line e (complete_cleanup e c) \<and> patch_line e (complete_cleanup e p) \<longrightarrow>
            (let stc = st\<lparr>current_group := current_group st @ [GStr (complete_cleanup e c)],
                          previous_line := Some (complete_cleanup e c)\<rparr>
             in add_all e (c # blanks @ [p]) st
                  = add_patch e (complete_cleanup e p)
                      (the (re_patch (reg e) (complete_cleanup e p))) stc
              \<and> \<not> lacks_comment e stc))
       \<and> (comment_line e (complete_cleanup e c) \<and> patch_line e (complete_cleanup e p) \<longrightarrow>
            (\<forall>st'. add_all e (c # blanks @ [p]) st = Inr st' \<longrightarrow>
               (\<exists>pre num val.
                   mgroup (the (re_patch (reg e) (complete_cleanup e p))) 1 = Inr pre
                 \<and> mgroup (the (re_patch (reg e) (complete_cleanup e p))) 2 = Inr num
                 \<and> mgroup (the (re_patch (reg e) (complete_cleanup e p))) 3 = Inr val
                 \<and> category_lines st' ''patch'' =
                     category_lines st ''patch'' @ pending_lines st
                       @ [complete_cleanup e c,
                          format_key (pre @ ''Patch'' @ (if num = [] then ''0'' else num)) @ val]
                 \<and> pending_lines st' = [])))
       \<and> (comment_line e (complete_cleanup e c) \<and> patch_line e (complete_cleanup e p)
            \<and> 3 \<le> length (the (re_patch (reg e) (complete_cleanup e p)))
            \<and> paragraph' st ''patch'' \<noteq> None \<longrightarrow>
            (\<exists>st'. add_all e (c # blanks @ [p]) st = Inr st'))"
proof -
  let ?stc = "st\<lparr>current_group := current_group st @ [GStr (complete_cleanup e c)],
                 previous_line := Some (complete_cleanup e c)\<rparr>"
  let ?m = "the (re_patch (reg e) (complete_cleanup e p))"
  have 1: "\<forall>b \<in> set blanks. \<forall>s. add e b s = Inr s"
    using assms by (simp add: add_blank)
  have 2: "add_all e (before @ blanks @ after) st = add_all e (before @ after) st"
    using assms by (simp add: add_all_append add_all_blanks split: sum.splits)
  have 3: "add_all e (c # blanks @ [p]) st = add_patch e (complete_cleanup e p) ?m ?stc
           \<and> \<not> lacks_comment e ?stc"
    if cl: "comment_line e (complete_cleanup e c)"
      and pl: "patch_line e (complete_cleanup e p)"
    using comment_then_patch[OF assms cl pl, of st] add_patch_line[OF pl, of ?stc] by simp
  have 4: "\<exists>pre num val.
             mgroup ?m 1 = Inr pre \<and> mgroup ?m 2 = Inr num \<and> mgroup ?m 3 = Inr val
           \<and> category_lines st' ''patch'' =
               category_lines st ''patch'' @ pending_lines st
                 @ [complete_cleanup e c,
                    format_key (pre @ ''Patch'' @ (if num = [] then ''0'' else num)) @ val]
           \<and> pending_lines st' = []"
    if cl: "comment_line e (complete_cleanup e c)"
      and pl: "patch_line e (complete_cleanup e p)"
      and r: "add_all e (c # blanks @ [p]) st = Inr st'" for st'
    using comment_then_patch_committed[OF assms cl pl r] .
  have 5: "\<exists>st'. add_all e (c # blanks @ [p]) st = Inr st'"
    if cl: "comment_line e (complete_cleanup e c)"
      and pl: "patch_line e (complete_cleanup e p)"
      and m: "3 \<le> length ?m" and s: "paragraph' st ''patch'' \<noteq> None"
  proof -
    from s have "paragraph' ?stc ''patch'' \<noteq> None" by simp
    from add_patch_returns[OF m this, of e "complete_cleanup e p"] 3[OF cl pl]
    show ?thesis by simp
  qed
  from 1 2 3 4 5 show ?thesis unfolding Let_def by blast
qed

theorem blank_lines_are_transparent_witness:
  "complete_cleanup example_env [] = []
   \<and> complete_cleanup example_env ''  '' = []
   \<and> add_all example_env ([''Name: x''] @ ['''', ''  ''] @ [''Url: y'']) init_state
       = add_all example_env ([''Name: x''] @ [''Url: y'']) init_state
   \<and> comment_line example_env (complete_cleanup example_env ''# fix'')
   \<and> patch_line example_env (complete_cleanup example_env ''Patch1: a.patch'')
   \<and> \<not> lacks_comment example_env
         (init_state\<lparr>current_group := current_group init_state @ [GStr (complete_cleanup example_env ''# fix'')],
                      previous_line := Some (complete_cleanup example_env ''# fix'')\<rparr>)
   \<and> (\<exists>st'. add_all example_env (''# fix'' # ['''', ''  ''] @ [''Patch1: a.patch'']) init_state
              = Inr st'
          \<and> category_lines st' ''patch'' = [''# fix'', ''Patch1:         a.patch'']
          \<and> pending_lines st' = [])
   \<and> run example_env ([''# fix''] @  ['''', ''  ''] @ [''Patch1: a.patch''])
       = Inr [''# fix'', ''Patch1:         a.patch'', []]"
proof -
  have h: "\<forall>b \<in> set ['''', ''  '']. complete_cleanup example_env b = []"
    by code_simp
  have c: "comment_line example_env (complete_cleanup example_env ''# fix'')"
    by code_simp
  have p: "patch_line example_env (complete_cleanup example_env ''Patch1: a.patch'')"
    by code_simp
  have r: "run example_env ([''# fix''] @  ['''', ''  ''] @ [''Patch1: a.patch''])
             = Inr [''# fix'', ''Patch1:         a.patch'', []]"
    by code_simp
  have m: "the (re_patch (reg example_env) (complete_cleanup example_env ''Patch1: a.patch''))
             = [[], ''1'', ''a.patch'']"
    by code_simp
  have cc: "complete_cleanup example_env ''# fix'' = ''# fix''"
    by code_simp
  have s: "paragraph' init_state ''patch'' \<noteq> None"
    by (simp add: init_state_def start_paragraph_def categories_order_def)
  have i: "category_lines init_state ''patch'' = []" "pending_lines init_state = []"
    by code_simp+
  have k: "format_key ''Patch1'' = ''Patch1:         ''"
    by (simp add: format_key_eq eval_nat_numeral)
  note t = blank_lines_are_transparent
         [OF h, of "[''Name: x'']" "[''Url: y'']" init_state "''# fix''" "''Patch1: a.patch''"]
  from t c p m s obtain st' where
    a: "add_all example_env (''# fix'' # ['''', ''  ''] @ [''Patch1: a.patch'']) init_state = Inr st'"
    by auto
  from t c p a have "category_lines st' ''patch'' = [''# fix'', ''Patch1:         a.patch'']
          \<and> pending_lines st' = []"
    by (auto simp: m cc i k mgroup_def)
  with a have e: "\<exists>st'. add_all example_env (''# fix'' # ['''', ''  ''] @ [''Patch1: a.patch'']) init_state
              = Inr st'
          \<and> category_lines st' ''patch'' = [''# fix'', ''Patch1:         a.patch'']
          \<and> pending_lines st' = []"
    by blast
  from t h c p r have
    "add_all example_env ([''Name: x''] @ ['''', ''  ''] @ [''Url: y'']) init_state
       = add_all example_env ([''Name: x''] @ [''Url: y'']) init_state"
    and "\<not> lacks_comment example_env
         (init_state\<lparr>current_group := current_group init_state @ [GStr (complete_cleanup example_env ''# fix'')],
                      previous_line := Some (complete_cleanup example_env ''# fix'')\<rparr>)"
    by (simp_all only: Let_def) auto
  with h c p r e show ?thesis by simp
qed

text \<open>
  Claim C9. No line is ever stored under \<open>requires_phase\<close>: after any sequence of lines
  added to a fresh engine the slot is empty, and closing the paragraph emits nothing for
  it. A line that takes the \<open>Requires(phase)\<close> branch is committed to \<open>prereq\<close>, with the
  key \<open>Requires\<close> followed by the captured phase, and so appears at the position of the
  pre-requisites.
\<close>

theorem requires_phase_never_populated:
  "(add_all e ls init_state = Inr st \<longrightarrow>
      paragraph' st ''requires_phase'' = Some []
    \<and> (\<forall>s. paragraph' s ''requires_phase'' = paragraph' st ''requires_phase'' \<longrightarrow>
           end_category e ''requires_phase'' s = Inr s))
   \<and> (requires_phase_line e (complete_cleanup e raw) \<and> add e raw s = Inr s' \<longrightarrow>
       (\<exists>phase value vs.
           mgroup (the (re_requires_phase (reg e) (complete_cleanup e raw))) 1 = Inr phase
         \<and> mgroup (the (re_requires_phase (reg e) (complete_cleanup e raw))) 2 = Inr value
         \<and> fix_list_of_packages e value = Inr vs
         \<and> category_lines s' ''prereq'' =
             category_lines s ''prereq'' @ (if vs = [] then [] else pending_lines s)
               @ map (\<lambda>v. format_key (''Requires'' @ phase) @ v) vs
         \<and> paragraph' s' ''requires_phase'' = paragraph' s ''requires_phase''))"
proof -
  have 1: "paragraph' st ''requires_phase'' = Some []
    \<and> (\<forall>s. paragraph' s ''requires_phase'' = paragraph' st ''requires_phase'' \<longrightarrow>
           end_category e ''requires_phase'' s = Inr s)"
    if "add_all e ls init_state = Inr st"
    using add_all_requires_phase_slot[OF that init_requires_phase]
    by (simp add: end_category_empty_slot)
  have 2: "\<exists>phase value vs.
           mgroup (the (re_requires_phase (reg e) (complete_cleanup e raw))) 1 = Inr phase
         \<and> mgroup (the (re_requires_phase (reg e) (complete_cleanup e raw))) 2 = Inr value
         \<and> fix_list_of_packages e value = Inr vs
         \<and> category_lines s' ''prereq'' =
             category_lines s ''prereq'' @ (if vs = [] then [] else pending_lines s)
               @ map (\<lambda>v. format_key (''Requires'' @ phase) @ v) vs
         \<and> paragraph' s' ''requires_phase'' = paragraph' s ''requires_phase''"
    if l: "requires_phase_line e (complete_cleanup e raw)" and a: "add e raw s = Inr s'"
  proof -
    let ?m = "the (re_requires_phase (reg e) (complete_cleanup e raw))"
    from a add_requires_phase_line[OF l] have r: "add_requires_phase e ?m s = Inr s'" by simp
    then obtain val phase where v: "mgroup ?m 2 = Inr val" and p: "mgroup ?m 1 = Inr phase"
      and c: "add_line_value_to e ''prereq'' val (Some (''Requires'' @ phase)) s = Inr s'"
      by (auto simp: add_requires_phase_def split: sum.splits)
    have k: "resolve_key ''prereq'' (Some (''Requires'' @ phase)) = Inr (''Requires'' @ phase)"
      by (simp add: resolve_key_def)
    have t: "''prereq'' \<in> set categories_with_package_tokens"
      by (simp add: categories_with_package_tokens_def categories_with_sorted_package_tokens_def)
    from add_line_value_to_Inr[OF c] k t obtain vs where
      "fix_list_of_packages e val = Inr vs"
      "category_lines s' ''prereq'' =
             category_lines s ''prereq'' @ (if vs = [] then [] else pending_lines s)
               @ map (\<lambda>v. format_key (''Requires'' @ phase) @ v) vs"
      by auto
    with v p add_requires_phase_keeps[OF r, of "''requires_phase''"] show ?thesis by blast
  qed
  from 1 2 show ?thesis by blast
qed

theorem requires_phase_never_populated_witness:
  "\<exists>st s'. add_all example_env [''Requires(post): foo'', ''Name: x''] init_state = Inr st
     \<and> paragraph' st ''requires_phase'' = Some []
     \<and> end_category example_env ''requires_phase'' st = Inr st
     \<and> requires_phase_line example_env (complete_cleanup example_env ''Requires(post): foo'')
     \<and> add example_env ''Requires(post): foo'' init_state = Inr s'
     \<and> category_lines s' ''prereq'' = [''Requires(post): foo'']"
proof -
  have "\<not> isl (add_all example_env [''Requires(post): foo'', ''Name: x''] init_state)"
    by code_simp
  then obtain st where
    a: "add_all example_env [''Requires(post): foo'', ''Name: x''] init_state = Inr st"
    by (cases "add_all example_env [''Requires(post): foo'', ''Name: x''] init_state") auto
  have "\<not> isl (add example_env ''Requires(post): foo'' init_state)"
    by code_simp
  then obtain s' where b: "add example_env ''Requires(post): foo'' init_state = Inr s'"
    by (cases "add example_env ''Requires(post): foo'' init_state") auto
  have l: "requires_phase_line example_env (complete_cleanup example_env ''Requires(post): foo'')"
    by code_simp
  have m: "the (re_requires_phase (reg example_env)
                 (complete_cleanup example_env ''Requires(post): foo'')) = [''(post)'', ''foo'']"
    by code_simp
  have f: "fix_list_of_packages example_env ''foo'' = Inr [''foo'']"
    by code_simp
  have c: "category_lines init_state ''prereq'' = []" "pending_lines init_state = []"
    by code_simp+
  have k: "format_key ''Requires(post)'' = ''Requires(post): ''"
    by (simp add: format_key_eq)
  from requires_phase_never_populated
         [of example_env "[''Requires(post): foo'', ''Name: x'']" st "''Requires(post): foo''"
             init_state s'] a b l
  have 1: "paragraph' st ''requires_phase'' = Some []"
    and 2: "end_category example_env ''requires_phase'' st = Inr st"
    and 3: "category_lines s' ''prereq'' = [''Requires(post): foo'']"
    by (auto simp: m f c k mgroup_def)
  with a b l show ?thesis by blast
qed

text \<open>
  Claim C7, as stated, fails: flattening a list group whose second element is of an
  unknown type raises, but the first element's line has been handed to the sink by then.
\<close>

theorem configuration_errors_counterexample:
  "raised (add_group (GList [GStr ''# note'', GOther ''int'']) init_state)
     = Some (RpmException ''Unknown type of group in preamble: int'')
   \<and> lines init_state = []
   \<and> lines (reached (add_group (GList [GStr ''# note'', GOther ''int'']) init_state)) = [''# note'']"
  by (simp add: raised_def reached_def section_add_def init_state_def start_paragraph_def)

text \<open>
  Claim C7, amended. Committing a line value to a category that is not in the key table,
  with no explicit key, raises the engine's exception and leaves the state as it was.
  Flattening a value that is neither a line nor a list raises the engine's exception and
  leaves the state as it was; when such a value is nested in a list group, flattening
  the group raises the same exception, after the lines of the elements that precede the
  value have been appended to the sink.
\<close>

theorem configuration_errors_raise:
  "((key = None \<or> key = Some []) \<and> category_to_key category = None \<longrightarrow>
      add_line_value_to e category value key st
        = Inl (RpmException (''Unhandled category in preamble: '' @ category), st))
   \<and> add_group (GOther t) st
        = Inl (RpmException (''Unknown type of group in preamble: '' @ t), st)
   \<and> (snd (scan_group g) = Some t \<longrightarrow>
        raised (add_group g st)
          = Some (RpmException (''Unknown type of group in preamble: '' @ t))
      \<and> lines (reached (add_group g st)) = lines st @ fst (scan_group g))"
  using unknown_category_raises[of key category e "value" st] add_group_scan(1)[of g st]
  by auto

theorem configuration_errors_raise_witness:
  "category_to_key ''requires_phase'' = None
   \<and> add_line_value_to example_env ''requires_phase'' ''x'' None init_state
        = Inl (RpmException ''Unhandled category in preamble: requires_phase'', init_state)
   \<and> snd (scan_group (GList [GStr ''# note'', GList [GStr ''Name: x'', GOther ''int''], GStr ''z''])) = Some ''int''
   \<and> raised (add_group (GList [GStr ''# note'', GList [GStr ''Name: x'', GOther ''int''], GStr ''z'']) init_state)
       = Some (RpmException ''Unknown type of group in preamble: int'')
   \<and> lines (reached (add_group (GList [GStr ''# note'', GList [GStr ''Name: x'', GOther ''int''], GStr ''z'']) init_state))
       = [''# note'', ''Name: x'']"
proof -
  have k: "category_to_key ''requires_phase'' = None"
    by (simp add: category_to_key_def)
  have s: "scan_group (GList [GStr ''# note'', GList [GStr ''Name: x'', GOther ''int''], GStr ''z''])
             = ([''# note'', ''Name: x''], Some ''int'')"
    by simp
  have l: "lines init_state = []"
    by (simp add: init_state_def start_paragraph_def)
  from configuration_errors_raise
         [of None "''requires_phase''" example_env "''x''" init_state "''int''"
             "GList [GStr ''# note'', GList [GStr ''Name: x'', GOther ''int''], GStr ''z'']"]
       k s l
  show ?thesis by simp
qed

text \<open>
  Claim C3 fails on the code: the branches for Provides and Obsoletes look their pattern
  up on the instance (\<open>self.re_provides\<close>, \<open>self.re_obsoletes\<close>) instead of in
  \<open>self.reg\<close>, as every other branch does. With no such attribute on the instance, adding
  a Provides or an Obsoletes line raises \<open>AttributeError\<close> and commits nothing.
\<close>

theorem provides_obsoletes_raise:
  "provides_line example_env (complete_cleanup example_env ''Provides: foo'')
   \<and> add example_env ''Provides: foo'' init_state = Inl (AttributeError ''re_provides'', init_state)
   \<and> obsoletes_line example_env (complete_cleanup example_env ''Obsoletes: bar'')
   \<and> add example_env ''Obsoletes: bar'' init_state = Inl (AttributeError ''re_obsoletes'', init_state)"
proof -
  have p: "provides_line example_env (complete_cleanup example_env ''Provides: foo'')"
    by code_simp
  have q: "obsoletes_line example_env (complete_cleanup example_env ''Obsoletes: bar'')"
    by code_simp
  have n: "self_attr example_env ''re_provides'' = None" "self_attr example_env ''re_obsoletes'' = None"
    by (simp_all add: example_env_def)
  from p q n show ?thesis
    by (simp add: add_provides_line add_obsoletes_line missing_attribute_raises)
qed

text \<open>
  Claim C4, as stated, fails: on the example line, with the aliases \<open>Foo\<close> to \<open>Foo-1.0\<close>
  and \<open>Bar\<close> to \<open>Bar-2.0\<close>, the engine emits \<open>Fooor later and (Baror similar)\<close>.
\<close>

theorem license_example_counterexample:
  "run example_env [''License: FooORlater and (BarORsim)'']
     = Inr [''License:        Fooor later and (Baror similar)'', []]
   \<and> fix_license example_env ''FooORlater and (BarORsim)''
       \<noteq> ''Foo-1.0 or later and (Bar-2.0 or similar)''"
  by code_simp

text \<open>
  Claim C4, amended. For the license value \<open>FooORlater and (BarORsim)\<close> the suffixes are
  replaced in place (no space is inserted before \<open>or later\<close> and \<open>or similar\<close>) and the alias
  table is consulted with the whole token after that replacement: whenever the tokens
  are only whitespace-trimmed and the table has no entry for \<open>Fooor later\<close>,
  \<open>Baror similar\<close>, \<open>and\<close> and the parentheses (whatever it holds for \<open>Foo\<close> and \<open>Bar\<close>), the
  normalised value is \<open>Fooor later and (Baror similar)\<close>, and adding the line returns and
  commits the padded \<open>License:\<close> key followed by that value.
\<close>

theorem license_example_emitted:
  assumes "\<forall>t \<in> set [''FooORlater'', ''('', ''BarORsim'', '')'']. strip_useless_spaces e t = t"
    and "strip_useless_spaces e '' and '' = ''and''"
    and "\<forall>t \<in> set [''Fooor later'', ''and'', ''('', ''Baror similar'', '')''].
           license_conversions e t = None"
    and "license_line e (complete_cleanup e raw)"
    and "last_group (the (re_license (reg e) (complete_cleanup e raw)))
           = Inr ''FooORlater and (BarORsim)''"
    and "paragraph' st ''license'' \<noteq> None"
  shows "fix_license e ''FooORlater and (BarORsim)'' = ''Fooor later and (Baror similar)''
       \<and> (\<exists>st'. add e raw st = Inr st'
             \<and> category_lines st' ''license'' =
                 category_lines st ''license'' @ pending_lines st
                   @ [''License:        Fooor later and (Baror similar)''])"
proof -
  let ?v = "''Fooor later and (Baror similar)''"
  have f: "fix_license e ''FooORlater and (BarORsim)'' = ?v"
    using assms(1-3) by (rule fix_license_example)
  have a: "add e raw st = add_line_value_to e ''license'' ?v None st"
    using assms(4,5) f by (simp add: add_license_line add_license_def)
  have k: "resolve_key ''license'' None = Inr ''License''"
    by (simp add: resolve_key_def category_to_key_def)
  have n: "''license'' \<notin> set categories_with_package_tokens"
    by (simp add: categories_with_package_tokens_def categories_with_sorted_package_tokens_def)
  from add_line_value_to_returns[OF k _ assms(6), of e ?v "[?v]"] n
  obtain st' where r: "add_line_value_to e ''license'' ?v None st = Inr st'" by auto
  have p: "format_key ''License'' = ''License:        ''"
    by (simp add: format_key_eq eval_nat_numeral)
  from add_line_value_to_Inr[OF r] k n p
  have "category_lines st' ''license'' =
          category_lines st ''license'' @ pending_lines st @ [''License:        '' @ ?v]"
    by auto
  with a r f show ?thesis by simp
qed

theorem license_example_emitted_witness:
  "\<exists>st'. add example_env ''License: FooORlater and (BarORsim)'' init_state = Inr st'
     \<and> category_lines st' ''license'' = [''License:        Fooor later and (Baror similar)'']"
proof -
  have 1: "\<forall>t \<in> set [''FooORlater'', ''('', ''BarORsim'', '')'']. strip_useless_spaces example_env t = t"
    by code_simp
  have 2: "strip_useless_spaces example_env '' and '' = ''and''"
    by code_simp
  have 3: "\<forall>t \<in> set [''Fooor later'', ''and'', ''('', ''Baror similar'', '')''].
             license_conversions example_env t = None"
    by code_simp
  have 4: "license_line example_env
             (complete_cleanup example_env ''License: FooORlater and (BarORsim)'')"
    by code_simp
  have 5: "last_group (the (re_license (reg example_env)
             (complete_cleanup example_env ''License: FooORlater and (BarORsim)'')))
           = Inr ''FooORlater and (BarORsim)''"
    by code_simp
  have 6: "paragraph' init_state ''license'' \<noteq> None"
    by (simp add: init_state_def start_paragraph_def categories_order_def)
  have 7: "category_lines init_state ''license'' = []" "pending_lines init_state = []"
    by code_simp+
  from license_example_emitted[OF 1 2 3 4 5 6] 7 show ?thesis by simp
qed

text \<open>
  Claim C5, as stated, fails for a patch line without a number: \<open>Patch:\<close> is emitted as
  \<open>Patch0:\<close>.
\<close>

theorem numbered_key_counterexample:
  "patch_line example_env (complete_cleanup example_env ''Patch: a.patch'')
   \<and> mgroup (the (re_patch (reg example_env) (complete_cleanup example_env ''Patch: a.patch''))) 2
       = Inr []
   \<and> run example_env [''Patch: a.patch'']
       = Inr [''# PATCH-MISSING-TAG -- See http://wiki.opensuse.org/openSUSE:Packaging_Patches_guidelines'',
              ''Patch0:         a.patch'', []]"
  by code_simp

text \<open>
  Claim C5, amended. A source line is committed under the key \<open>Source\<close> followed by the
  captured number exactly as it is, also when it is absent; the absent number counts as
  0 only in the sort key. A patch line is committed under the captured prefix, \<open>Patch\<close>
  and the captured number when there is one, and under \<open>Patch0\<close> when there is none.
\<close>

theorem numbered_key_text:
  "(source_line e (complete_cleanup e raw) \<and> add e raw st = Inr st' \<longrightarrow>
      (\<exists>num val.
          mgroup (the (re_source (reg e) (complete_cleanup e raw))) 1 = Inr num
        \<and> mgroup (the (re_source (reg e) (complete_cleanup e raw))) 2 = Inr val
        \<and> category_lines st' ''source'' =
            category_lines st ''source'' @ pending_lines st
              @ [format_key (''Source'' @ num) @ val]))
   \<and> (patch_line e (complete_cleanup e rawp) \<and> add e rawp st = Inr st'' \<longrightarrow>
      (\<exists>pre num val.
          mgroup (the (re_patch (reg e) (complete_cleanup e rawp))) 1 = Inr pre
        \<and> mgroup (the (re_patch (reg e) (complete_cleanup e rawp))) 2 = Inr num
        \<and> mgroup (the (re_patch (reg e) (complete_cleanup e rawp))) 3 = Inr val
        \<and> category_lines st'' ''patch'' =
            category_lines st ''patch'' @ pending_lines st
              @ (if lacks_comment e st then [patch_missing_tag] else [])
              @ [format_key (pre @ ''Patch'' @ (if num = [] then ''0'' else num)) @ val]))
   \<and> (re_patch (reg e) k = None \<and> re_source (reg e) k = Some m \<and> mgroup m 1 = Inr [] \<longrightarrow>
        sort_helper_key e (GStr k) = Inr (KInt 0))"
  using source_line_committed[of e raw st st'] patch_line_committed[of e rawp st st'']
    source_sort_key_absent[of e k m]
  by blast

theorem numbered_key_text_witness:
  "\<exists>st' st''.
      source_line example_env (complete_cleanup example_env ''Source: x.tar'')
    \<and> add example_env ''Source: x.tar'' init_state = Inr st'
    \<and> category_lines st' ''source'' = [''Source:         x.tar'']
    \<and> patch_line example_env (complete_cleanup example_env ''Patch: a.patch'')
    \<and> add example_env ''Patch: a.patch'' init_state = Inr st''
    \<and> category_lines st'' ''patch'' = [patch_missing_tag, ''Patch0:         a.patch'']
    \<and> sort_helper_key example_env (GStr ''Source:         x.tar'') = Inr (KInt 0)"
proof -
  have "\<not> isl (add example_env ''Source: x.tar'' init_state)"
    by code_simp
  then obtain st' where a: "add example_env ''Source: x.tar'' init_state = Inr st'"
    by (cases "add example_env ''Source: x.tar'' init_state") auto
  have "\<not> isl (add example_env ''Patch: a.patch'' init_state)"
    by code_simp
  then obtain st'' where b: "add example_env ''Patch: a.patch'' init_state = Inr st''"
    by (cases "add example_env ''Patch: a.patch'' init_state") auto
  have s: "source_line example_env (complete_cleanup example_env ''Source: x.tar'')"
    by code_simp
  have p: "patch_line example_env (complete_cleanup example_env ''Patch: a.patch'')"
    by code_simp
  have ms: "the (re_source (reg example_env) (complete_cleanup example_env ''Source: x.tar''))
              = [[], ''x.tar'']"
    by code_simp
  have mp: "the (re_patch (reg example_env) (complete_cleanup example_env ''Patch: a.patch''))
              = [[], [], ''a.patch'']"
    by code_simp
  have k: "re_patch (reg example_env) ''Source:         x.tar'' = None"
    "re_source (reg example_env) ''Source:         x.tar'' = Some [[], ''x.tar'']"
    by code_simp+
  have c: "category_lines init_state ''source'' = []" "category_lines init_state ''patch'' = []"
    "pending_lines init_state = []" "lacks_comment example_env init_state"
    by code_simp+
  have f: "format_key ''Source'' = ''Source:         ''" "format_key ''Patch0'' = ''Patch0:         ''"
    by (simp_all add: format_key_eq eval_nat_numeral)
  from numbered_key_text
         [of example_env "''Source: x.tar''" init_state st' "''Patch: a.patch''" st''
             "''Source:         x.tar''" "[[], ''x.tar'']"] a b s p k
  have "category_lines st' ''source'' = [''Source:         x.tar'']"
    and "category_lines st'' ''patch'' = [patch_missing_tag, ''Patch0:         a.patch'']"
    and "sort_helper_key example_env (GStr ''Source:         x.tar'') = Inr (KInt 0)"
    by (auto simp: ms mp c f mgroup_def)
  with a b s p show ?thesis by blast
qed

text \<open>
  Claim C6, as stated, fails for a \<open>Requires(phase)\<close> line: it is committed with no
  synthetic comment.
\<close>

theorem review_comment_counterexample:
  "requires_phase_line example_env (complete_cleanup example_env ''Requires(post): foo'')
   \<and> run example_env [''Requires(post): foo''] = Inr [''Requires(post): foo'', []]"
  by code_simp

text \<open>
  Claim C6, amended. A \<open>PreReq\<close> line gets the comment \<open>prereq_fixme\<close> appended to the
  pending attachments before it is committed: the comment directly precedes the first
  committed line, and stays pending when the value expands to no line.
  A \<open>Requires(phase)\<close> line is committed with the pending attachments only; no comment is
  added.
\<close>

theorem review_comment_attached:
  "(prereq_line e (complete_cleanup e raw) \<and> add e raw st = Inr st' \<longrightarrow>
      (\<exists>val vs.
          mgroup (the (re_prereq (reg e) (complete_cleanup e raw))) 1 = Inr val
        \<and> fix_list_of_packages e val = Inr vs
        \<and> category_lines st' ''prereq'' =
            category_lines st ''prereq''
              @ (if vs = [] then [] else pending_lines st @ [prereq_fixme])
              @ map (\<lambda>v. format_key ''PreReq'' @ v) vs
        \<and> (vs = [] \<longrightarrow> pending_lines st' = pending_lines st @ [prereq_fixme])))
   \<and> (requires_phase_line e (complete_cleanup e rawq) \<and> add e rawq st = Inr st'' \<longrightarrow>
      (\<exists>phase val vs.
          mgroup (the (re_requires_phase (reg e) (complete_cleanup e rawq))) 1 = Inr phase
        \<and> mgroup (the (re_requires_phase (reg e) (complete_cleanup e rawq))) 2 = Inr val
        \<and> fix_list_of_packages e val = Inr vs
        \<and> category_lines st'' ''prereq'' =
            category_lines st ''prereq'' @ (if vs = [] then [] else pending_lines st)
              @ map (\<lambda>v. format_key (''Requires'' @ phase) @ v) vs
        \<and> (vs = [] \<longrightarrow> st'' = st)))"
  using prereq_line_committed[of e raw st st'] requires_phase_line_committed[of e rawq st st'']
  by blast

theorem review_comment_attached_witness:
  "\<exists>st' st''.
      prereq_line example_env (complete_cleanup example_env ''PreReq: foo'')
    \<and> add example_env ''PreReq: foo'' init_state = Inr st'
    \<and> category_lines st' ''prereq'' = [prereq_fixme, ''PreReq:         foo'']
    \<and> requires_phase_line example_env (complete_cleanup example_env ''Requires(post): foo'')
    \<and> add example_env ''Requires(post): foo'' init_state = Inr st''
    \<and> category_lines st'' ''prereq'' = [''Requires(post): foo'']"
proof -
  have "\<not> isl (add example_env ''PreReq: foo'' init_state)"
    by code_simp
  then obtain st' where a: "add example_env ''PreReq: foo'' init_state = Inr st'"
    by (cases "add example_env ''PreReq: foo'' init_state") auto
  have "\<not> isl (add example_env ''Requires(post): foo'' init_state)"
    by code_simp
  then obtain st'' where b: "add example_env ''Requires(post): foo'' init_state = Inr st''"
    by (cases "add example_env ''Requires(post): foo'' init_state") auto
  have p: "prereq_line example_env (complete_cleanup example_env ''PreReq: foo'')"
    by code_simp
  have q: "requires_phase_line example_env (complete_cleanup example_env ''Requires(post): foo'')"
    by code_simp
  have mp: "the (re_prereq (reg example_env) (complete_cleanup example_env ''PreReq: foo''))
              = [''foo'']"
    by code_simp
  have mq: "the (re_requires_phase (reg example_env)
                  (complete_cleanup example_env ''Requires(post): foo'')) = [''(post)'', ''foo'']"
    by code_simp
  have f: "fix_list_of_packages example_env ''foo'' = Inr [''foo'']"
    by code_simp
  have c: "category_lines init_state ''prereq'' = []" "pending_lines init_state = []"
    by code_simp+
  have k: "format_key ''PreReq'' = ''PreReq:         ''"
    "format_key ''Requires(post)'' = ''Requires(post): ''"
    by (simp_all add: format_key_eq eval_nat_numeral)
  from review_comment_attached
         [of example_env "''PreReq: foo''" init_state st' "''Requires(post): foo''" st''] a b p q
  have "category_lines st' ''prereq'' = [prereq_fixme, ''PreReq:         foo'']"
    and "category_lines st'' ''prereq'' = [''Requires(post): foo'']"
    by (auto simp: mp mq f c k mgroup_def)
  with a b p q show ?thesis by blast
qed

text \<open>
  Claim C2. When closing a paragraph returns, the sink has gained the lines of the
  categories in the order of \<open>categories_order\<close>, so the category rank along the emitted
  lines never decreases, followed by the lines of the pending group. In a sortable
  category the groups are emitted in the order of their sort keys (the key of the \<open>n\<close>-th
  group is the \<open>n\<close>-th key), and groups with the same key keep the order in which they
  were inserted; the groups of any other category are emitted as inserted.
\<close>

theorem closure_emits_in_category_order:
  assumes "end_paragraph e st = Inr st'"
  shows "lines st' = lines st @ map snd (ranked_lines e st) @ pending_lines st
       \<and> sorted (map fst (ranked_lines e st))
       \<and> (\<forall>i gs. paragraph' st i = Some gs \<and> sortable i \<longrightarrow>
            (\<exists>ks. map (sort_helper_key e) gs = map Inr ks
                \<and> emission_order e i gs = map snd (sort_key fst (zip ks gs))
                \<and> sorted (map fst (sort_key fst (zip ks gs)))
                \<and> (\<forall>k. filter (\<lambda>p. fst p = k) (sort_key fst (zip ks gs))
                          = filter (\<lambda>p. fst p = k) (zip ks gs))))
       \<and> (\<forall>i gs. \<not> sortable i \<longrightarrow> emission_order e i gs = gs)"
proof -
  from end_paragraph_Inr[OF assms]
  have l: "lines st' = lines st @ concat (map (emitted_lines e st) categories_order)
             @ pending_lines st"
    and s: "\<forall>i \<in> set categories_order. \<exists>gs. paragraph' st i = Some gs
              \<and> (sortable i \<longrightarrow> (\<exists>gs'. sort_groups e gs = Inr gs'))"
    by blast+
  have 1: "lines st' = lines st @ map snd (ranked_lines e st) @ pending_lines st"
    using l by (simp add: ranked_lines_def ranked_snd)
  have 2: "sorted (map fst (ranked_lines e st))"
    unfolding ranked_lines_def by (rule ranked_fst_sorted)
  have 3: "\<exists>ks. map (sort_helper_key e) gs = map Inr ks
                \<and> emission_order e i gs = map snd (sort_key fst (zip ks gs))
                \<and> sorted (map fst (sort_key fst (zip ks gs)))
                \<and> (\<forall>k. filter (\<lambda>p. fst p = k) (sort_key fst (zip ks gs))
                          = filter (\<lambda>p. fst p = k) (zip ks gs))"
    if g: "paragraph' st i = Some gs" and so: "sortable i" for i gs
  proof -
    from s sortable_in_order[OF so] g so obtain gs' where o: "sort_groups e gs = Inr gs'"
      by fastforce
    from sort_groups_Inr[OF o] obtain ks where k: "map (sort_helper_key e) gs = map Inr ks"
      and r: "gs' = map snd (sort_key fst (zip ks gs))" by blast
    from o r so have "emission_order e i gs = map snd (sort_key fst (zip ks gs))"
      by (simp add: emission_order_def)
    with k show ?thesis
      using sorted_sort_key[of fst "zip ks gs"] sort_key_stable[of fst _ "zip ks gs"]
      by blast
  qed
  have 4: "\<forall>i gs. \<not> sortable i \<longrightarrow> emission_order e i gs = gs"
    by (simp add: emission_order_def)
  from 1 2 3 4 show ?thesis by blast
qed

theorem closure_emits_in_category_order_witness:
  "end_paragraph example_env
     (reached (add_all example_env
        [''Requires: pkgconfig(a)'', ''Source1: s1'', ''Requires: zlib'', ''Name: x'',
         ''Source: s0'', ''# trailing''] init_state))
   = Inr (reached (end_paragraph example_env
       (reached (add_all example_env
          [''Requires: pkgconfig(a)'', ''Source1: s1'', ''Requires: zlib'', ''Name: x'',
           ''Source: s0'', ''# trailing''] init_state))))
   \<and> lines (reached (end_paragraph example_env
       (reached (add_all example_env
          [''Requires: pkgconfig(a)'', ''Source1: s1'', ''Requires: zlib'', ''Name: x'',
           ''Source: s0'', ''# trailing''] init_state))))
     = [''Name:           x'', ''Source:         s0'', ''Source1:        s1'',
        ''Requires:       zlib'', ''Requires:       pkgconfig(a)'', ''# trailing'']
   \<and> map fst (ranked_lines example_env
       (reached (add_all example_env
          [''Requires: pkgconfig(a)'', ''Source1: s1'', ''Requires: zlib'', ''Name: x'',
           ''Source: s0'', ''# trailing''] init_state)))
     = [1, 9, 9, 12, 12]"
proof -
  let ?S = "reached (add_all example_env
        [''Requires: pkgconfig(a)'', ''Source1: s1'', ''Requires: zlib'', ''Name: x'',
         ''Source: s0'', ''# trailing''] init_state)"
  have "\<not> isl (end_paragraph example_env ?S)"
    by code_simp
  then have h: "end_paragraph example_env ?S = Inr (reached (end_paragraph example_env ?S))"
    by (rule not_isl_reached)
  have r: "ranked_lines example_env ?S
             = [(1, ''Name:           x''), (9, ''Source:         s0''),
                (9, ''Source1:        s1''), (12, ''Requires:       zlib''),
                (12, ''Requires:       pkgconfig(a)'')]"
    by code_simp
  have l: "lines ?S = []" "pending_lines ?S = [''# trailing'']"
    by code_simp+
  from closure_emits_in_category_order[OF h] have
    "lines (reached (end_paragraph example_env ?S))
       = lines ?S @ map snd (ranked_lines example_env ?S) @ pending_lines ?S"
    by blast
  with h r l show ?thesis by simp
qed

text \<open>
  Claim C1 fails on the code. A \<open>PreReq\<close> line gets the comment \<open>prereq_fixme\<close> on every
  pass, so feeding the output back adds a second copy; the patch branch, which looks at
  the previous line before attaching its own synthetic comment, adds none on the second
  pass.
\<close>

theorem prereq_comment_duplicated:
  "run example_env [''PreReq: foo'']
     = Inr [''# FIXME: use proper Requires(pre/post/preun/...)'', ''PreReq:         foo'', []]
   \<and> run example_env
         [''# FIXME: use proper Requires(pre/post/preun/...)'', ''PreReq:         foo'', []]
     = Inr [''# FIXME: use proper Requires(pre/post/preun/...)'',
            ''# FIXME: use proper Requires(pre/post/preun/...)'', ''PreReq:         foo'', []]
   \<and> run example_env [''Patch1: a.patch'']
     = Inr [patch_missing_tag, ''Patch1:         a.patch'', []]
   \<and> run example_env [patch_missing_tag, ''Patch1:         a.patch'', []]
     = Inr [patch_missing_tag, ''Patch1:         a.patch'', []]"
  by code_simp

end
